theory Spec2Isabelle
  imports Main
begin

section \<open>The session manager of database.go\<close>

text \<open>
  The program is a Go package with one struct, \<^verbatim>\<open>DB_Session\<close>, and four kinds of
  goroutine working on it: the supervisor (\<^verbatim>\<open>handleReconnect\<close>, started by
  \<^verbatim>\<open>NewDB\<close>), one health monitor per successful \<^verbatim>\<open>connect\<close> (the anonymous
  function of lines 99-110), and the application goroutines that call
  \<^verbatim>\<open>GetConnection\<close> and \<^verbatim>\<open>Close\<close>.

  The embedding has two layers. The functions without a blocking point (\<^verbatim>\<open>ping\<close>,
  \<^verbatim>\<open>connect\<close>, \<^verbatim>\<open>getConnection\<close>, \<^verbatim>\<open>Close\<close>) are functions on the process
  state. The goroutines are interleaved by a step function: one step runs one goroutine
  from a blocking point (a \<^verbatim>\<open>select\<close>, a channel send, a ticker receive) to the next.
  What the pgxpool library answers (open, ping, acquire) and which case a \<^verbatim>\<open>select\<close>
  with two ready cases picks is not decided by the program; it is supplied by the event
  that drives the step.

  What the model assumes:
  \<^item> A step is atomic and the fields of the session are read and written in the order of
    the steps. The program has no lock around \<^verbatim>\<open>isReady\<close> and \<^verbatim>\<open>pool\<close>; interleavings
    inside a step are not modelled.
  \<^item> A \<^verbatim>\<open>select\<close> is evaluated when its goroutine takes a step. The state reached at the
    end of an iteration of a loop is the one in which the goroutine has arrived at its
    \<^verbatim>\<open>select\<close> and has not evaluated it yet.
  \<^item> The answers of the library are unconstrained: any call may succeed or fail at any
    time, also a ping of a closed pool. \<^verbatim>\<open>pool.Close()\<close> returns at once.
  \<^item> Time is a counter of nanoseconds that the event \<open>Tick\<close> advances; a step takes no
    time. A timer can fire once the counter has reached its deadline.
\<close>

subsection \<open>Data\<close>

type_synonym handle = nat
  \<comment> \<open>a \<^verbatim>\<open>*pgxpool.Pool\<close>; pools are numbered in the order \<^verbatim>\<open>NewWithConfig\<close> creates them\<close>

type_synonym conn = nat
  \<comment> \<open>a \<^verbatim>\<open>*pgxpool.Conn\<close>\<close>

datatype error = errAlreadyClosed | errShutdown | errAdapter string

fun Error :: "error \<Rightarrow> string" where
  "Error errAlreadyClosed = ''already closed: not connected to the server''"
| "Error errShutdown = ''session is shutting down''"
| "Error (errAdapter m) = m"

text \<open>A call either returns or panics; a panic ends the whole process.\<close>

datatype 'a outcome = Returns 'a | Panics string

record DB_Params =
  Server :: string
  MaxConnectAttempts :: int

text \<open>
  Nothing is ever sent on \<^verbatim>\<open>done\<close>, and the only senders on \<^verbatim>\<open>notifyConnClose\<close> are
  monitors, whose blocked sends are kept in their program counters. Both channels are
  unbuffered, so the state of a channel is whether it has been closed.
\<close>

datatype chan = ChOpen | ChClosed

text \<open>
  The field \<^verbatim>\<open>done\<close> is called \<open>done_ch\<close> here. The field \<^verbatim>\<open>logger\<close> is a
  logger on standard output that is never replaced; what it prints is the component
  \<open>stdout\<close> of the process (message texts only, without the time stamp).
\<close>

record DB_Session =
  params :: DB_Params
  pool :: "handle option"
  config :: string
  done_ch :: chan
  notifyConnClose :: chan
  isReady :: bool

definition Second :: nat where
  "Second = 1000000000"

definition reconnectDelay :: nat where
  "reconnectDelay = 2 * Second"

definition healthCheckDelay :: nat where
  "healthCheckDelay = 2 * Second"

text \<open>
  Program counters. The supervisor is before its first iteration, in the \<^verbatim>\<open>select\<close>
  of line 70 (with the time at which \<^verbatim>\<open>time.After(reconnectDelay)\<close> fires), in the
  \<^verbatim>\<open>select\<close> of line 78, or has returned. A monitor waits for its ticker (with the time
  of the next tick), is blocked in the send of line 106, or has left its loop. A caller of
  \<^verbatim>\<open>GetConnection\<close> is before its first iteration, in the \<^verbatim>\<open>select\<close> of line 132, or
  has returned.
\<close>

datatype sup_pc = SupStart | SupBackoff nat | SupWait | SupReturned

datatype mon_pc = MonTicking nat | MonSending | MonExited

datatype call_pc = CallStart | CallBackoff nat | CallReturned "error + conn"

record proc = DB_Session +
  stdout :: "string list"
  next_handle :: handle
  closed_pools :: "handle set"
  supervisor :: sup_pc
  monitors :: "mon_pc list"
  callers :: "call_pc list"
  clock :: nat
  panicked :: "string option"

subsection \<open>The functions of the package\<close>

definition Println :: "string \<Rightarrow> proc \<Rightarrow> proc" where
  "Println m w = w\<lparr>stdout := stdout w @ [m]\<rparr>"

definition nil_deref :: string where
  "nil_deref = ''invalid memory address or nil pointer dereference''"

text \<open>
  \<^verbatim>\<open>ping\<close> (lines 119-125). \<open>Ping h\<close> is what \<^verbatim>\<open>Ping\<close> answers for pool \<open>h\<close> at this
  moment; the pool that is asked is the one in \<^verbatim>\<open>session.pool\<close>.
\<close>

definition ping :: "proc \<Rightarrow> (handle \<Rightarrow> error option) \<Rightarrow> error option outcome" where
  "ping w Ping =
     (case pool w of
        None \<Rightarrow> Panics nil_deref
      | Some h \<Rightarrow> (case Ping h of Some err \<Rightarrow> Returns (Some err) | None \<Rightarrow> Returns None))"

text \<open>
  \<^verbatim>\<open>connect\<close> (lines 87-117). \<open>NewWithConfig\<close> is the error of
  \<^verbatim>\<open>pgxpool.NewWithConfig\<close>, \<open>None\<close> when it returns a pool; the new pool gets the
  next unused number. The goroutine started at line 99 is added to \<open>monitors\<close>; its
  ticker fires first one period after its creation.
\<close>

definition connect ::
  "proc \<Rightarrow> error option \<Rightarrow> (handle \<Rightarrow> error option) \<Rightarrow> error option outcome \<times> proc" where
  "connect w NewWithConfig Ping =
     (case NewWithConfig of
        Some err \<Rightarrow> (Returns (Some err), w)
      | None \<Rightarrow>
          (let w1 = w\<lparr>pool := Some (next_handle w), next_handle := Suc (next_handle w)\<rparr> in
           case ping w1 Ping of
             Panics m \<Rightarrow> (Panics m, w1)
           | Returns (Some err) \<Rightarrow> (Returns (Some err), w1)
           | Returns None \<Rightarrow>
               (let w2 = w1\<lparr>monitors := monitors w1 @ [MonTicking (clock w1 + healthCheckDelay)]\<rparr>;
                    w3 = w2\<lparr>isReady := True\<rparr>
                in (Returns None, Println ''DB setup!'' (Println ''DB connected!'' w3)))))"

text \<open>
  \<^verbatim>\<open>getConnection\<close> (lines 143-152). \<open>Acquire h\<close> is what \<^verbatim>\<open>Acquire\<close> answers for
  pool \<open>h\<close> at this moment.
\<close>

definition getConnection :: "proc \<Rightarrow> (handle \<Rightarrow> error + conn) \<Rightarrow> (error + conn) outcome" where
  "getConnection w Acquire =
     (if \<not> isReady w then Returns (Inl errAlreadyClosed)
      else case pool w of
        None \<Rightarrow> Panics nil_deref
      | Some h \<Rightarrow> (case Acquire h of Inl err \<Rightarrow> Returns (Inl err) | Inr c \<Rightarrow> Returns (Inr c)))"

text \<open>
  \<^verbatim>\<open>Close\<close> (lines 154-164). Closing a closed channel panics. Closing a channel on which
  a goroutine is blocked in a send makes that goroutine panic, which ends the process as
  well. \<^verbatim>\<open>pool.Close()\<close> returns nothing and may be repeated.
\<close>

definition Close :: "proc \<Rightarrow> error option outcome \<times> proc" where
  "Close w =
     (let w0 = Println ''Stopping DB'' w in
      if \<not> isReady w0 then (Returns (Some errAlreadyClosed), w0)
      else case pool w0 of
        None \<Rightarrow> (Panics nil_deref, w0)
      | Some h \<Rightarrow>
          (let w1 = w0\<lparr>closed_pools := insert h (closed_pools w0)\<rparr> in
           if done_ch w1 = ChClosed then (Panics ''close of closed channel'', w1)
           else let w2 = w1\<lparr>done_ch := ChClosed\<rparr> in
           if notifyConnClose w2 = ChClosed then (Panics ''close of closed channel'', w2)
           else let w3 = w2\<lparr>notifyConnClose := ChClosed\<rparr> in
           if MonSending \<in> set (monitors w3) then (Panics ''send on closed channel'', w3)
           else (Returns None, w3\<lparr>isReady := False\<rparr>)))"

text \<open>
  \<^verbatim>\<open>NewDB\<close> (lines 38-58), up to the start of the supervisor. \<open>ParseConfig\<close> is
  \<^verbatim>\<open>pgxpool.ParseConfig\<close>. Time is counted from this moment.
\<close>

definition NewDB_state :: "DB_Params \<Rightarrow> string \<Rightarrow> proc" where
  "NewDB_state p cfg =
     \<lparr>params = p, pool = None, config = cfg, done_ch = ChOpen, notifyConnClose = ChOpen,
      isReady = False,
      stdout = [''DB config valid!'', ''DB starting connection''],
      next_handle = 0, closed_pools = {}, supervisor = SupStart, monitors = [],
      callers = [], clock = 0, panicked = None\<rparr>"

definition NewDB :: "DB_Params \<Rightarrow> (string \<Rightarrow> error + string) \<Rightarrow> proc outcome" where
  "NewDB p ParseConfig =
     (case ParseConfig (Server p) of
        Inl err \<Rightarrow> Panics (Error err)
      | Inr cfg \<Rightarrow> Returns (NewDB_state p cfg))"

subsection \<open>The goroutines\<close>

text \<open>
  A \<^verbatim>\<open>select\<close> with two cases and no default: it blocks (\<open>None\<close>) while neither case
  can proceed, takes the one that can, and when both can, either one; \<open>first\<close> says
  which.
\<close>

datatype select_case = Case1 | Case2

definition select2 :: "bool \<Rightarrow> bool \<Rightarrow> bool \<Rightarrow> select_case option" where
  "select2 first ready1 ready2 =
     (if ready1 \<and> ready2 then Some (if first then Case1 else Case2)
      else if ready1 then Some Case1
      else if ready2 then Some Case2
      else None)"

text \<open>
  A receive on \<^verbatim>\<open>notifyConnClose\<close> can proceed when the channel is closed or a monitor
  is blocked in its send. The receive lets the longest-waiting sender go on; that monitor
  then leaves its loop (line 107) and ends.
\<close>

definition recv_ready :: "proc \<Rightarrow> bool" where
  "recv_ready w = (notifyConnClose w = ChClosed \<or> MonSending \<in> set (monitors w))"

fun complete_send :: "mon_pc list \<Rightarrow> mon_pc list" where
  "complete_send [] = []"
| "complete_send (MonSending # ms) = MonExited # ms"
| "complete_send (m # ms) = m # complete_send ms"

definition recv :: "proc \<Rightarrow> proc" where
  "recv w =
     (if notifyConnClose w = ChClosed then w
      else w\<lparr>monitors := complete_send (monitors w)\<rparr>)"

text \<open>
  One iteration of the loop of \<^verbatim>\<open>handleReconnect\<close> (lines 62-76), from the top of the
  loop to the \<^verbatim>\<open>select\<close> it ends in.
\<close>

definition handleReconnect_iter ::
  "proc \<Rightarrow> error option \<Rightarrow> (handle \<Rightarrow> error option) \<Rightarrow> proc" where
  "handleReconnect_iter w NewWithConfig Ping =
     (let w1 = Println ''DB attempting to connect'' (w\<lparr>isReady := False\<rparr>) in
      case connect w1 NewWithConfig Ping of
        (Panics m, w2) \<Rightarrow> w2\<lparr>panicked := Some m\<rparr>
      | (Returns (Some err), w2) \<Rightarrow>
          (Println (''DB Error: '' @ Error err) w2)
            \<lparr>supervisor := SupBackoff (clock w2 + reconnectDelay)\<rparr>
      | (Returns None, w2) \<Rightarrow> w2\<lparr>supervisor := SupWait\<rparr>)"

text \<open>
  One step of the supervisor (lines 60-85): it leaves the \<^verbatim>\<open>select\<close> it is in, if it
  can, and runs to the next one.
\<close>

definition handleReconnect_step ::
  "proc \<Rightarrow> bool \<Rightarrow> error option \<Rightarrow> (handle \<Rightarrow> error option) \<Rightarrow> proc" where
  "handleReconnect_step w first NewWithConfig Ping =
     (case supervisor w of
        SupStart \<Rightarrow> handleReconnect_iter w NewWithConfig Ping
      | SupBackoff t \<Rightarrow>
          (case select2 first (done_ch w = ChClosed) (t \<le> clock w) of
             None \<Rightarrow> w
           | Some Case1 \<Rightarrow> w\<lparr>supervisor := SupReturned\<rparr>
           | Some Case2 \<Rightarrow> handleReconnect_iter w NewWithConfig Ping)
      | SupWait \<Rightarrow>
          (case select2 first (done_ch w = ChClosed) (recv_ready w) of
             None \<Rightarrow> w
           | Some Case1 \<Rightarrow> w\<lparr>supervisor := SupReturned\<rparr>
           | Some Case2 \<Rightarrow>
               handleReconnect_iter
                 (Println ''DB connection closed. Reconnecting...'' (recv w))
                 NewWithConfig Ping)
      | SupReturned \<Rightarrow> w)"

text \<open>
  The ticker of a monitor fires every \<^verbatim>\<open>healthCheckDelay\<close>; ticks that pass while the
  monitor does not receive are dropped.
\<close>

definition next_tick :: "nat \<Rightarrow> nat \<Rightarrow> nat" where
  "next_tick t now = t + healthCheckDelay * ((now - t) div healthCheckDelay + 1)"

text \<open>
  One step of monitor \<open>i\<close> (lines 99-110): it receives a tick and pings
  \<^verbatim>\<open>session.pool\<close>, whatever pool that is by now. After a failed ping it sends on
  \<^verbatim>\<open>notifyConnClose\<close>: a send on a closed channel panics, a send on an open one blocks
  until the supervisor receives.
\<close>

definition monitor_step :: "proc \<Rightarrow> nat \<Rightarrow> (handle \<Rightarrow> error option) \<Rightarrow> proc" where
  "monitor_step w i Ping =
     (if i < length (monitors w) then
        (case monitors w ! i of
           MonTicking t \<Rightarrow>
             (if clock w < t then w
              else case ping w Ping of
                Panics m \<Rightarrow> w\<lparr>panicked := Some m\<rparr>
              | Returns None \<Rightarrow>
                  w\<lparr>monitors := (monitors w)[i := MonTicking (next_tick t (clock w))]\<rparr>
              | Returns (Some err) \<Rightarrow>
                  (if notifyConnClose w = ChClosed
                   then w\<lparr>panicked := Some ''send on closed channel''\<rparr>
                   else w\<lparr>monitors := (monitors w)[i := MonSending]\<rparr>))
         | MonSending \<Rightarrow> w
         | MonExited \<Rightarrow> w)
      else w)"

text \<open>
  One iteration of the loop of \<^verbatim>\<open>GetConnection\<close> (lines 129-139) for caller \<open>i\<close>, and
  one step of that caller (lines 127-141).
\<close>

definition GetConnection_iter :: "proc \<Rightarrow> nat \<Rightarrow> (handle \<Rightarrow> error + conn) \<Rightarrow> proc" where
  "GetConnection_iter w i Acquire =
     (case getConnection w Acquire of
        Panics m \<Rightarrow> w\<lparr>panicked := Some m\<rparr>
      | Returns (Inl err) \<Rightarrow>
          (Println ''Push failed. Retrying...'' w)
            \<lparr>callers := (callers w)[i := CallBackoff (clock w + reconnectDelay)]\<rparr>
      | Returns (Inr c) \<Rightarrow> w\<lparr>callers := (callers w)[i := CallReturned (Inr c)]\<rparr>)"

definition GetConnection_step ::
  "proc \<Rightarrow> nat \<Rightarrow> bool \<Rightarrow> (handle \<Rightarrow> error + conn) \<Rightarrow> proc" where
  "GetConnection_step w i first Acquire =
     (if i < length (callers w) then
        (case callers w ! i of
           CallStart \<Rightarrow> GetConnection_iter w i Acquire
         | CallBackoff t \<Rightarrow>
             (case select2 first (done_ch w = ChClosed) (t \<le> clock w) of
                None \<Rightarrow> w
              | Some Case1 \<Rightarrow> w\<lparr>callers := (callers w)[i := CallReturned (Inl errShutdown)]\<rparr>
              | Some Case2 \<Rightarrow> GetConnection_iter w i Acquire)
         | CallReturned r \<Rightarrow> w)
      else w)"

definition Close_call :: "proc \<Rightarrow> proc" where
  "Close_call w =
     (case Close w of
        (Panics m, w') \<Rightarrow> w'\<lparr>panicked := Some m\<rparr>
      | (Returns r, w') \<Rightarrow> w')"

subsection \<open>The process\<close>

text \<open>
  An event lets time pass, runs one step of a goroutine, or is a call of the package by
  the application. After a panic nothing happens any more.
\<close>

datatype event =
    Tick nat
  | Supervisor bool "error option" "handle \<Rightarrow> error option"
  | Monitor nat "handle \<Rightarrow> error option"
  | CallClose
  | CallGetConnection
  | Caller nat bool "handle \<Rightarrow> error + conn"

definition step :: "proc \<Rightarrow> event \<Rightarrow> proc" where
  "step w e =
     (if panicked w \<noteq> None then w
      else case e of
        Tick d \<Rightarrow> w\<lparr>clock := clock w + d\<rparr>
      | Supervisor first NewWithConfig Ping \<Rightarrow> handleReconnect_step w first NewWithConfig Ping
      | Monitor i Ping \<Rightarrow> monitor_step w i Ping
      | CallClose \<Rightarrow> Close_call w
      | CallGetConnection \<Rightarrow> w\<lparr>callers := callers w @ [CallStart]\<rparr>
      | Caller i first Acquire \<Rightarrow> GetConnection_step w i first Acquire)"

definition exec :: "proc \<Rightarrow> event list \<Rightarrow> proc" where
  "exec w evs = foldl step w evs"

definition reachable :: "proc \<Rightarrow> bool" where
  "reachable w = (\<exists>p cfg evs. w = exec (NewDB_state p cfg) evs)"

subsection \<open>What is observed of a state\<close>

text \<open>A monitor is active until it has left its loop.\<close>

definition active :: "mon_pc \<Rightarrow> bool" where
  "active m = (m \<noteq> MonExited)"

definition active_monitors :: "proc \<Rightarrow> nat" where
  "active_monitors w = length (filter active (monitors w))"

text \<open>A pool is live when the session holds it and \<^verbatim>\<open>Close\<close> has not closed it.\<close>

definition live_pool :: "proc \<Rightarrow> bool" where
  "live_pool w = (case pool w of None \<Rightarrow> False | Some h \<Rightarrow> h \<notin> closed_pools w)"

text \<open>
  The log tells how often the supervisor has tried: every iteration prints
  \<^verbatim>\<open>DB attempting to connect\<close>, then either \<^verbatim>\<open>DB Error: ...\<close> or
  \<^verbatim>\<open>DB connected!\<close>. The counters below read these lines.
\<close>

definition is_error_line :: "string \<Rightarrow> bool" where
  "is_error_line l = (take 10 l = ''DB Error: '')"

definition attempts :: "proc \<Rightarrow> nat" where
  "attempts w = count_list (stdout w) ''DB attempting to connect''"

definition failures :: "proc \<Rightarrow> nat" where
  "failures w = length (filter is_error_line (stdout w))"

definition successes :: "proc \<Rightarrow> nat" where
  "successes w = count_list (stdout w) ''DB connected!''"

text \<open>
  The most recent attempt to connect succeeded when the last line that reports the result
  of an attempt is \<^verbatim>\<open>DB connected!\<close>.
\<close>

definition attempt_results :: "proc \<Rightarrow> string list" where
  "attempt_results w = filter (\<lambda>l. l = ''DB connected!'' \<or> is_error_line l) (stdout w)"

definition attempt_succeeded :: "proc \<Rightarrow> bool" where
  "attempt_succeeded w =
     (attempt_results w \<noteq> [] \<and> last (attempt_results w) = ''DB connected!'')"

text \<open>
  The log lines that report neither an attempt nor its result.
\<close>

definition other_line :: "string \<Rightarrow> bool" where
  "other_line l =
     (l = ''Stopping DB'' \<or> l = ''Push failed. Retrying...'' \<or>
      l = ''DB connection closed. Reconnecting...'')"

subsection \<open>Invariants of the process\<close>

text \<open>
  Pools are numbered below \<open>next_handle\<close>; a monitor exists only after a pool has been
  assigned; \<^verbatim>\<open>notifyConnClose\<close> is closed only after \<^verbatim>\<open>done\<close>; and while the
  process runs, a ready session holds a pool that has not been closed.
\<close>

definition inv_base :: "proc \<Rightarrow> bool" where
  "inv_base w =
     ((\<forall>h\<in>closed_pools w. h < next_handle w) \<and>
      (\<forall>h. pool w = Some h \<longrightarrow> h < next_handle w) \<and>
      (monitors w \<noteq> [] \<longrightarrow> pool w \<noteq> None) \<and>
      (notifyConnClose w = ChClosed \<longrightarrow> done_ch w = ChClosed) \<and>
      (panicked w = None \<longrightarrow> isReady w \<longrightarrow> (\<exists>h. pool w = Some h \<and> h \<notin> closed_pools w)))"

text \<open>
  As long as \<^verbatim>\<open>done\<close> is open, the process has not panicked, the supervisor has not
  returned, the session is ready exactly while the supervisor is in the \<^verbatim>\<open>select\<close> of
  line 78, and the only monitor that can be active is the one started last, while the
  supervisor is in that \<^verbatim>\<open>select\<close>.
\<close>

definition inv_open :: "proc \<Rightarrow> bool" where
  "inv_open w =
     (done_ch w = ChOpen \<longrightarrow>
        panicked w = None \<and> notifyConnClose w = ChOpen \<and> supervisor w \<noteq> SupReturned \<and>
        (isReady w \<longleftrightarrow> supervisor w = SupWait) \<and>
        (if supervisor w = SupWait
         then \<exists>ms m. monitors w = ms @ [m] \<and> active m \<and> (\<forall>x\<in>set ms. \<not> active x)
         else \<forall>x\<in>set (monitors w). \<not> active x))"

text \<open>
  Whatever a caller of \<^verbatim>\<open>GetConnection\<close> has been given is a connection, or the
  shutdown error after \<^verbatim>\<open>done\<close> has been closed.
\<close>

definition inv_call :: "proc \<Rightarrow> bool" where
  "inv_call w =
     (\<forall>r. CallReturned r \<in> set (callers w) \<longrightarrow>
        (\<exists>c. r = Inr c) \<or> (r = Inl errShutdown \<and> done_ch w = ChClosed))"

text \<open>
  Every attempt has one result; a ready session has connected at least once; and every
  failed attempt has been followed by \<^verbatim>\<open>reconnectDelay\<close> before the next one, so that
  the supervisor is never ahead of the time its failures have cost.
\<close>

definition inv_log :: "proc \<Rightarrow> bool" where
  "inv_log w =
     (attempts w = failures w + successes w \<and>
      (isReady w \<longrightarrow> 0 < successes w \<and> failures w * reconnectDelay \<le> clock w) \<and>
      (case supervisor w of
         SupStart \<Rightarrow> failures w * reconnectDelay \<le> clock w \<and> attempt_results w = []
       | SupBackoff t \<Rightarrow> failures w * reconnectDelay \<le> t \<and> \<not> attempt_succeeded w
       | SupWait \<Rightarrow> failures w * reconnectDelay \<le> clock w \<and> attempt_succeeded w
       | SupReturned \<Rightarrow> True))"

subsection \<open>The readings of C1 and C5 that are compared with the code\<close>



text \<open>
  For C5 the reading is \<open>active_monitors w \<le> 1\<close>: at most one monitor is active.
\<close>

subsection \<open>Inputs used in the examples\<close>

definition example_params :: DB_Params where
  "example_params = \<lparr>Server = ''postgres://db/books'', MaxConnectAttempts = 3\<rparr>"

definition started :: proc where
  "started = NewDB_state example_params ''parsed''"

definition healthy :: "handle \<Rightarrow> error option" where
  "healthy h = None"

definition unhealthy :: "handle \<Rightarrow> error option" where
  "unhealthy h = Some (errAdapter ''connection refused'')"

definition lends :: "handle \<Rightarrow> error + conn" where
  "lends h = Inr 7"

definition refuses :: "handle \<Rightarrow> error + conn" where
  "refuses h = Inl (errAdapter ''pool exhausted'')"

text \<open>
  The adapter refuses to open the pool \<open>n\<close> times, and each time the supervisor waits out
  its timer.
\<close>

fun failed_rounds :: "nat \<Rightarrow> error \<Rightarrow> event list" where
  "failed_rounds 0 err = []"
| "failed_rounds (Suc n) err =
     failed_rounds n err @ [Supervisor True (Some err) healthy, Tick reconnectDelay]"

section \<open>Properties\<close>

subsection \<open>What one iteration of the supervisor does\<close>

lemma connect_open_fails:
  "connect w (Some err) Ping = (Returns (Some err), w)"
  by (simp add: connect_def)

lemma connect_ping_fails:
  "Ping (next_handle w) = Some err \<Longrightarrow>
   connect w None Ping =
     (Returns (Some err), w\<lparr>pool := Some (next_handle w), next_handle := Suc (next_handle w)\<rparr>)"
  by (simp add: connect_def ping_def)

lemma connect_succeeds:
  "Ping (next_handle w) = None \<Longrightarrow>
   connect w None Ping =
     (Returns None,
      w\<lparr>pool := Some (next_handle w), next_handle := Suc (next_handle w),
        monitors := monitors w @ [MonTicking (clock w + healthCheckDelay)],
        isReady := True,
        stdout := stdout w @ [''DB connected!'', ''DB setup!'']\<rparr>)"
  by (simp add: connect_def ping_def Println_def)

lemma iter_open_fails:
  "handleReconnect_iter w (Some err) Ping =
     w\<lparr>isReady := False,
       stdout := stdout w @ [''DB attempting to connect'', ''DB Error: '' @ Error err],
       supervisor := SupBackoff (clock w + reconnectDelay)\<rparr>"
  by (simp add: handleReconnect_iter_def connect_open_fails Println_def)

lemma iter_ping_fails:
  "Ping (next_handle w) = Some err \<Longrightarrow>
   handleReconnect_iter w None Ping =
     w\<lparr>isReady := False,
       pool := Some (next_handle w), next_handle := Suc (next_handle w),
       stdout := stdout w @ [''DB attempting to connect'', ''DB Error: '' @ Error err],
       supervisor := SupBackoff (clock w + reconnectDelay)\<rparr>"
  by (simp add: handleReconnect_iter_def connect_ping_fails Println_def)

lemma iter_succeeds:
  "Ping (next_handle w) = None \<Longrightarrow>
   handleReconnect_iter w None Ping =
     w\<lparr>isReady := True,
       pool := Some (next_handle w), next_handle := Suc (next_handle w),
       monitors := monitors w @ [MonTicking (clock w + healthCheckDelay)],
       stdout := stdout w @ [''DB attempting to connect'', ''DB connected!'', ''DB setup!''],
       supervisor := SupWait\<rparr>"
  by (simp add: handleReconnect_iter_def connect_succeeds Println_def)

subsection \<open>Pools, channels and readiness\<close>

lemma iter_cases:
  obtains (open_fails) err where "NewWithConfig = Some err"
  | (ping_fails) err where "NewWithConfig = None" "Ping (next_handle w) = Some err"
  | (succeeds) "NewWithConfig = None" "Ping (next_handle w) = None"
  by (cases NewWithConfig; cases "Ping (next_handle w)") auto

lemma inv_base_iter:
  assumes "inv_base w" "panicked w = None"
  shows "inv_base (handleReconnect_iter w NewWithConfig Ping)"
proof (cases rule: iter_cases [where NewWithConfig = NewWithConfig and Ping = Ping and w = w])
  case (open_fails err)
  with assms show ?thesis by (auto simp: inv_base_def iter_open_fails)
next
  case (ping_fails err)
  with assms show ?thesis by (auto simp: inv_base_def iter_ping_fails less_Suc_eq)
next
  case succeeds
  with assms show ?thesis by (auto simp: inv_base_def iter_succeeds less_Suc_eq)
qed

lemma inv_base_recv: "inv_base w \<Longrightarrow> inv_base (recv w)"
  by (auto simp: inv_base_def recv_def)

lemma monitors_complete_send_Nil [simp]: "complete_send ms = [] \<longleftrightarrow> ms = []"
  by (induction ms rule: complete_send.induct) auto

lemma inv_base_supervisor:
  assumes "inv_base w" "panicked w = None"
  shows "inv_base (handleReconnect_step w first NewWithConfig Ping)"
proof (cases "supervisor w")
  case SupStart
  with assms show ?thesis by (simp add: handleReconnect_step_def inv_base_iter)
next
  case (SupBackoff t)
  have "inv_base (w\<lparr>supervisor := SupReturned\<rparr>)"
    using assms by (auto simp: inv_base_def)
  with SupBackoff assms show ?thesis
    by (simp add: handleReconnect_step_def inv_base_iter split: option.split select_case.split)
next
  case SupWait
  have 1: "inv_base (w\<lparr>supervisor := SupReturned\<rparr>)"
    using assms by (auto simp: inv_base_def)
  have "inv_base (Println ''DB connection closed. Reconnecting...'' (recv w))"
    using assms by (auto simp: inv_base_def recv_def Println_def)
  moreover have "panicked (Println ''DB connection closed. Reconnecting...'' (recv w)) = None"
    using assms by (simp add: recv_def Println_def)
  ultimately show ?thesis using SupWait assms 1
    by (simp add: handleReconnect_step_def inv_base_iter split: option.split select_case.split)
next
  case SupReturned
  with assms show ?thesis by (simp add: handleReconnect_step_def)
qed

lemma inv_base_monitor:
  assumes "inv_base w"
  shows "inv_base (monitor_step w i Ping)"
  using assms
  by (auto simp: monitor_step_def inv_base_def ping_def split: mon_pc.split option.split outcome.split)

lemma inv_base_Close:
  assumes "inv_base w"
  shows "inv_base (Close_call w)"
  using assms
  by (auto simp: Close_call_def Close_def inv_base_def Println_def Let_def split: option.split)

lemma inv_base_caller:
  assumes "inv_base w"
  shows "inv_base (GetConnection_step w i first Acquire)"
  using assms
  by (auto simp: GetConnection_step_def GetConnection_iter_def getConnection_def inv_base_def
      Println_def split: call_pc.split option.split select_case.split sum.split)

lemma inv_base_step: "inv_base w \<Longrightarrow> inv_base (step w e)"
  by (cases e)
    (auto simp: step_def inv_base_supervisor inv_base_monitor inv_base_Close inv_base_caller,
     auto simp: inv_base_def)

lemma inv_base_exec: "inv_base w \<Longrightarrow> inv_base (exec w evs)"
  unfolding exec_def by (induction evs arbitrary: w) (auto simp: inv_base_step)

lemma inv_base_NewDB: "inv_base (NewDB_state p cfg)"
  by (simp add: inv_base_def NewDB_state_def)

lemma reachable_inv_base: "reachable w \<Longrightarrow> inv_base w"
  by (auto simp: reachable_def inv_base_exec inv_base_NewDB)

subsection \<open>One monitor while the session is open\<close>

lemma complete_send_exited:
  "\<forall>x\<in>set ms. \<not> active x \<Longrightarrow> complete_send (ms @ [MonSending]) = ms @ [MonExited]"
  by (induction ms) (auto simp: active_def)

lemma inv_open_iter:
  assumes "done_ch w = ChOpen" "panicked w = None" "notifyConnClose w = ChOpen"
    "\<forall>x\<in>set (monitors w). \<not> active x"
  shows "inv_open (handleReconnect_iter w NewWithConfig Ping)"
proof (cases rule: iter_cases [where NewWithConfig = NewWithConfig and Ping = Ping and w = w])
  case (open_fails err)
  with assms show ?thesis by (simp add: inv_open_def iter_open_fails)
next
  case (ping_fails err)
  with assms show ?thesis by (simp add: inv_open_def iter_ping_fails)
next
  case succeeds
  with assms show ?thesis by (simp add: inv_open_def iter_succeeds active_def)
qed

lemma done_ch_iter [simp]: "done_ch (handleReconnect_iter w NewWithConfig Ping) = done_ch w"
  by (cases rule: iter_cases [where NewWithConfig = NewWithConfig and Ping = Ping and w = w])
    (simp_all add: iter_open_fails iter_ping_fails iter_succeeds)

lemma done_ch_supervisor [simp]:
  "done_ch (handleReconnect_step w first NewWithConfig Ping) = done_ch w"
  by (simp add: handleReconnect_step_def recv_def Println_def
      split: sup_pc.split option.split select_case.split)

lemma done_ch_monitor [simp]: "done_ch (monitor_step w i Ping) = done_ch w"
  by (simp add: monitor_step_def split: mon_pc.split option.split outcome.split)

lemma done_ch_caller [simp]: "done_ch (GetConnection_step w i first Acquire) = done_ch w"
  by (simp add: GetConnection_step_def GetConnection_iter_def Println_def
      split: call_pc.split option.split outcome.split select_case.split sum.split)

lemma inv_open_supervisor:
  assumes "inv_open w"
  shows "inv_open (handleReconnect_step w first NewWithConfig Ping)"
proof (cases "done_ch w")
  case ChClosed
  then show ?thesis by (simp add: inv_open_def)
next
  case ChOpen
  with assms have a: "panicked w = None" "notifyConnClose w = ChOpen"
    "supervisor w \<noteq> SupReturned" "isReady w \<longleftrightarrow> supervisor w = SupWait"
    by (simp_all add: inv_open_def)
  show ?thesis
  proof (cases "supervisor w")
    case SupStart
    with assms ChOpen have "\<forall>x\<in>set (monitors w). \<not> active x"
      by (simp add: inv_open_def)
    then have "inv_open (handleReconnect_iter w NewWithConfig Ping)"
      using ChOpen a by (intro inv_open_iter)
    with SupStart show ?thesis
      by (simp add: handleReconnect_step_def)
  next
    case (SupBackoff t)
    with assms ChOpen have "\<forall>x\<in>set (monitors w). \<not> active x"
      by (simp add: inv_open_def)
    then have "inv_open (handleReconnect_iter w NewWithConfig Ping)"
      using ChOpen a by (intro inv_open_iter)
    with SupBackoff ChOpen assms show ?thesis
      by (simp add: handleReconnect_step_def select2_def)
  next
    case SupWait
    with assms ChOpen obtain ms m where
      ms: "monitors w = ms @ [m]" "active m" "\<forall>x\<in>set ms. \<not> active x"
      by (auto simp: inv_open_def)
    show ?thesis
    proof (cases "m = MonSending")
      case True
      let ?w = "Println ''DB connection closed. Reconnecting...'' (recv w)"
      have "monitors ?w = ms @ [MonExited]"
        using ms True a by (simp add: Println_def recv_def complete_send_exited)
      then have "inv_open (handleReconnect_iter ?w NewWithConfig Ping)"
        using ms a ChOpen by (intro inv_open_iter) (simp_all add: Println_def recv_def active_def)
      then show ?thesis
        using SupWait ChOpen ms True a
        by (simp add: handleReconnect_step_def select2_def recv_ready_def)
    next
      case False
      then have "\<not> recv_ready w"
        using ms a by (auto simp: recv_ready_def active_def)
      then show ?thesis
        using SupWait ChOpen assms by (simp add: handleReconnect_step_def select2_def)
    qed
  next
    case SupReturned
    with a show ?thesis by simp
  qed
qed

lemma inv_open_monitor:
  assumes "inv_open w" "inv_base w"
  shows "inv_open (monitor_step w i Ping)"
proof (cases "done_ch w = ChOpen \<and> i < length (monitors w) \<and> active (monitors w ! i)")
  case False
  show ?thesis
  proof (cases "done_ch w")
    case ChClosed
    then show ?thesis by (simp add: inv_open_def)
  next
    case ChOpen
    with False have "\<not> (i < length (monitors w) \<and> active (monitors w ! i))" by simp
    then have "monitor_step w i Ping = w"
      by (auto simp: monitor_step_def active_def split: mon_pc.split)
    with assms show ?thesis by simp
  qed
next
  case True
  with assms have a: "panicked w = None" "notifyConnClose w = ChOpen"
    "supervisor w \<noteq> SupReturned" "isReady w \<longleftrightarrow> supervisor w = SupWait"
    by (simp_all add: inv_open_def)
  from True assms have sw: "supervisor w = SupWait"
    by (auto simp: inv_open_def split: if_splits)
  with assms True obtain ms m where
    ms: "monitors w = ms @ [m]" "active m" "\<forall>x\<in>set ms. \<not> active x"
    by (auto simp: inv_open_def)
  from True ms have i: "i = length ms"
    by (cases "i < length ms") (auto simp: nth_append)
  from ms assms(2) obtain h where h: "pool w = Some h"
    by (auto simp: inv_base_def)
  have shape: "inv_open (w\<lparr>monitors := ms @ [m']\<rparr>)" if "active m'" for m'
    using that ms a sw True by (simp add: inv_open_def)
  show ?thesis
  proof (cases m)
    case (MonTicking t)
    show ?thesis
    proof (cases "clock w < t")
      case True
      with MonTicking ms i assms show ?thesis by (simp add: monitor_step_def)
    next
      case False
      show ?thesis
      proof (cases "Ping h")
        case None
        with False MonTicking ms i h have
          "monitor_step w i Ping = w\<lparr>monitors := ms @ [MonTicking (next_tick t (clock w))]\<rparr>"
          by (simp add: monitor_step_def ping_def)
        then show ?thesis using shape by (simp add: active_def)
      next
        case (Some err)
        with False MonTicking ms i h a have
          "monitor_step w i Ping = w\<lparr>monitors := ms @ [MonSending]\<rparr>"
          by (simp add: monitor_step_def ping_def)
        then show ?thesis using shape by (simp add: active_def)
      qed
    qed
  next
    case MonSending
    with ms i assms show ?thesis by (simp add: monitor_step_def)
  next
    case MonExited
    with ms show ?thesis by (simp add: active_def)
  qed
qed

lemma Close_not_ready:
  "\<not> isReady w \<Longrightarrow> Close w = (Returns (Some errAlreadyClosed), Println ''Stopping DB'' w)"
  by (simp add: Close_def Println_def)

lemma Close_call_not_ready:
  "\<not> isReady w \<Longrightarrow> Close_call w = Println ''Stopping DB'' w"
  by (simp add: Close_call_def Close_not_ready)

lemma Close_call_ready_done:
  "isReady w \<Longrightarrow> pool w = Some h \<Longrightarrow> done_ch (Close_call w) = ChClosed"
  by (simp add: Close_call_def Close_def Println_def Let_def)

lemma inv_open_Close:
  assumes "inv_open w" "inv_base w" "panicked w = None"
  shows "inv_open (Close_call w)"
proof (cases "isReady w")
  case False
  with assms show ?thesis by (simp add: Close_call_not_ready Println_def inv_open_def)
next
  case True
  with assms obtain h where "pool w = Some h" by (auto simp: inv_base_def)
  with True have "done_ch (Close_call w) = ChClosed" by (rule Close_call_ready_done)
  then show ?thesis by (simp add: inv_open_def)
qed

lemma GetConnection_iter_cases:
  assumes "isReady w \<longrightarrow> pool w \<noteq> None"
  obtains (retry) "GetConnection_iter w i Acquire =
      w\<lparr>stdout := stdout w @ [''Push failed. Retrying...''],
        callers := (callers w)[i := CallBackoff (clock w + reconnectDelay)]\<rparr>"
  | (got) h c where "isReady w" "pool w = Some h" "Acquire h = Inr c"
      "GetConnection_iter w i Acquire = w\<lparr>callers := (callers w)[i := CallReturned (Inr c)]\<rparr>"
proof (cases "isReady w")
  case False
  then have "GetConnection_iter w i Acquire =
      w\<lparr>stdout := stdout w @ [''Push failed. Retrying...''],
        callers := (callers w)[i := CallBackoff (clock w + reconnectDelay)]\<rparr>"
    by (simp add: GetConnection_iter_def getConnection_def Println_def)
  then show ?thesis by (rule retry)
next
  case True
  with assms obtain h where h: "pool w = Some h" by auto
  show ?thesis
  proof (cases "Acquire h")
    case (Inl err)
    with True h have "GetConnection_iter w i Acquire =
      w\<lparr>stdout := stdout w @ [''Push failed. Retrying...''],
        callers := (callers w)[i := CallBackoff (clock w + reconnectDelay)]\<rparr>"
      by (simp add: GetConnection_iter_def getConnection_def Println_def)
    then show ?thesis by (rule retry)
  next
    case (Inr c)
    with True h have "GetConnection_iter w i Acquire =
        w\<lparr>callers := (callers w)[i := CallReturned (Inr c)]\<rparr>"
      by (simp add: GetConnection_iter_def getConnection_def)
    with True h Inr show ?thesis by (rule got)
  qed
qed

lemma inv_open_callers_update:
  "inv_open w \<Longrightarrow> inv_open (w\<lparr>callers := cs\<rparr>)"
  "inv_open w \<Longrightarrow> inv_open (w\<lparr>stdout := out, callers := cs\<rparr>)"
  by (simp_all add: inv_open_def)

lemma inv_open_GetConnection_iter:
  assumes "inv_open w" "inv_base w" "panicked w = None"
  shows "inv_open (GetConnection_iter w i Acquire)"
proof -
  from assms have "isReady w \<longrightarrow> pool w \<noteq> None" by (auto simp: inv_base_def)
  then show ?thesis
    by (cases rule: GetConnection_iter_cases [where i = i and Acquire = Acquire])
      (simp_all add: inv_open_callers_update assms)
qed

lemma inv_open_caller:
  assumes "inv_open w" "inv_base w" "panicked w = None"
  shows "inv_open (GetConnection_step w i first Acquire)"
  using assms
  by (simp add: GetConnection_step_def inv_open_GetConnection_iter inv_open_callers_update
      split: call_pc.split option.split select_case.split)

lemma inv_open_step:
  assumes "inv_open w" "inv_base w"
  shows "inv_open (step w e)"
proof (cases "panicked w = None")
  case False
  with assms show ?thesis by (simp add: step_def)
next
  case True
  show ?thesis
  proof (cases e)
    case (Tick d)
    with assms True show ?thesis by (simp add: step_def inv_open_def)
  next
    case (Supervisor first NewWithConfig Ping)
    with assms True show ?thesis by (simp add: step_def inv_open_supervisor)
  next
    case (Monitor i Ping)
    with assms True show ?thesis by (simp add: step_def inv_open_monitor)
  next
    case CallClose
    with assms True show ?thesis by (simp add: step_def inv_open_Close)
  next
    case CallGetConnection
    with assms True show ?thesis by (simp add: step_def inv_open_def)
  next
    case (Caller i first Acquire)
    with assms True show ?thesis by (simp add: step_def inv_open_caller)
  qed
qed

lemma inv_open_exec: "inv_open w \<Longrightarrow> inv_base w \<Longrightarrow> inv_open (exec w evs)"
  unfolding exec_def
  by (induction evs arbitrary: w) (simp_all add: inv_open_step inv_base_step)

lemma inv_open_NewDB: "inv_open (NewDB_state p cfg)"
  by (simp add: inv_open_def NewDB_state_def)

lemma reachable_inv_open: "reachable w \<Longrightarrow> inv_open w"
  by (auto simp: reachable_def inv_open_exec inv_open_NewDB inv_base_NewDB)

subsection \<open>Evaluating a run\<close>

lemmas run_defs =
  exec_def step_def started_def NewDB_state_def handleReconnect_step_def
  handleReconnect_iter_def connect_def ping_def Println_def Close_call_def Close_def
  select2_def recv_ready_def recv_def monitor_step_def next_tick_def
  GetConnection_step_def GetConnection_iter_def getConnection_def
  healthy_def unhealthy_def lends_def refuses_def reconnectDelay_def healthCheckDelay_def Second_def

lemma reachable_exec_started: "reachable (exec started evs)"
  unfolding reachable_def started_def by blast

subsection \<open>What GetConnection returns\<close>

lemma done_ch_Close_call: "done_ch w = ChClosed \<Longrightarrow> done_ch (Close_call w) = ChClosed"
  by (simp add: Close_call_def Close_def Println_def Let_def split: option.split)

lemma callers_iter [simp]: "callers (handleReconnect_iter w NewWithConfig Ping) = callers w"
  by (cases rule: iter_cases [where NewWithConfig = NewWithConfig and Ping = Ping and w = w])
    (simp_all add: iter_open_fails iter_ping_fails iter_succeeds)

lemma callers_supervisor [simp]:
  "callers (handleReconnect_step w first NewWithConfig Ping) = callers w"
  by (simp add: handleReconnect_step_def recv_def Println_def
      split: sup_pc.split option.split select_case.split)

lemma callers_monitor [simp]: "callers (monitor_step w i Ping) = callers w"
  by (simp add: monitor_step_def split: mon_pc.split option.split outcome.split)

lemma callers_Close_call [simp]: "callers (Close_call w) = callers w"
  by (simp add: Close_call_def Close_def Println_def Let_def split: option.split)

lemma done_ch_step: "done_ch w = ChClosed \<Longrightarrow> done_ch (step w e) = ChClosed"
  by (cases e) (simp_all add: step_def done_ch_Close_call)

lemma inv_call_same_callers:
  assumes "inv_call w" "callers w' = callers w" "done_ch w = ChClosed \<longrightarrow> done_ch w' = ChClosed"
  shows "inv_call w'"
  using assms unfolding inv_call_def by metis

lemma inv_call_update:
  assumes "inv_call w" "callers w' = (callers w)[i := c]" "done_ch w' = done_ch w"
    "\<forall>r. c = CallReturned r \<longrightarrow> (\<exists>c'. r = Inr c') \<or> (r = Inl errShutdown \<and> done_ch w = ChClosed)"
  shows "inv_call w'"
  unfolding inv_call_def
proof (intro allI impI)
  fix r assume "CallReturned r \<in> set (callers w')"
  with assms(2) have "CallReturned r \<in> insert c (set (callers w))"
    using set_update_subset_insert by fastforce
  with assms(1,3,4) show "(\<exists>c. r = Inr c) \<or> (r = Inl errShutdown \<and> done_ch w' = ChClosed)"
    by (auto simp: inv_call_def)
qed

lemma getConnection_cases:
  obtains (not_ready) "\<not> isReady w" "getConnection w Acquire = Returns (Inl errAlreadyClosed)"
  | (nil_pool) "isReady w" "pool w = None" "getConnection w Acquire = Panics nil_deref"
  | (acquire_fails) h err where "isReady w" "pool w = Some h" "Acquire h = Inl err"
      "getConnection w Acquire = Returns (Inl err)"
  | (acquired) h c where "isReady w" "pool w = Some h" "Acquire h = Inr c"
      "getConnection w Acquire = Returns (Inr c)"
proof (cases "isReady w")
  case False
  then show ?thesis using not_ready by (simp add: getConnection_def)
next
  case True
  show ?thesis
  proof (cases "pool w")
    case None
    with True show ?thesis using nil_pool by (simp add: getConnection_def)
  next
    case (Some h)
    with True show ?thesis using acquire_fails acquired
      by (cases "Acquire h") (simp_all add: getConnection_def)
  qed
qed

lemma inv_call_GetConnection_iter:
  assumes "inv_call w"
  shows "inv_call (GetConnection_iter w i Acquire)"
proof (cases rule: getConnection_cases [where w = w and Acquire = Acquire])
  case not_ready
  then show ?thesis
    by (intro inv_call_update [OF assms, where i = i and c = "CallBackoff (clock w + reconnectDelay)"])
      (simp_all add: GetConnection_iter_def Println_def)
next
  case nil_pool
  then show ?thesis
    by (intro inv_call_same_callers [OF assms]) (simp_all add: GetConnection_iter_def)
next
  case (acquire_fails h err)
  then show ?thesis
    by (intro inv_call_update [OF assms, where i = i and c = "CallBackoff (clock w + reconnectDelay)"])
      (simp_all add: GetConnection_iter_def Println_def)
next
  case (acquired h c)
  then show ?thesis
    by (intro inv_call_update [OF assms, where i = i and c = "CallReturned (Inr c)"])
      (simp_all add: GetConnection_iter_def)
qed

lemma inv_call_caller:
  assumes "inv_call w"
  shows "inv_call (GetConnection_step w i first Acquire)"
proof (cases "i < length (callers w)")
  case False
  with assms show ?thesis by (simp add: GetConnection_step_def)
next
  case True
  show ?thesis
  proof (cases "callers w ! i")
    case CallStart
    with True assms show ?thesis
      by (simp add: GetConnection_step_def inv_call_GetConnection_iter)
  next
    case (CallBackoff t)
    have "inv_call (w\<lparr>callers := (callers w)[i := CallReturned (Inl errShutdown)]\<rparr>)"
      if "done_ch w = ChClosed"
      using that
      by (intro inv_call_update [OF assms, where i = i and c = "CallReturned (Inl errShutdown)"])
        simp_all
    with CallBackoff True assms show ?thesis
      by (simp add: GetConnection_step_def select2_def inv_call_GetConnection_iter)
  next
    case (CallReturned r)
    with True assms show ?thesis by (simp add: GetConnection_step_def)
  qed
qed

lemma inv_call_step: "inv_call w \<Longrightarrow> inv_call (step w e)"
proof (cases e)
  case (Caller i first Acquire)
  assume "inv_call w"
  with Caller show ?thesis by (simp add: step_def inv_call_caller)
next
  case CallGetConnection
  assume "inv_call w"
  with CallGetConnection show ?thesis by (auto simp: step_def inv_call_def)
qed (auto intro!: inv_call_same_callers [of w] simp: step_def done_ch_Close_call)

lemma inv_call_exec: "inv_call w \<Longrightarrow> inv_call (exec w evs)"
  unfolding exec_def by (induction evs arbitrary: w) (simp_all add: inv_call_step)

lemma inv_call_NewDB: "inv_call (NewDB_state p cfg)"
  by (simp add: inv_call_def NewDB_state_def)

lemma reachable_inv_call: "reachable w \<Longrightarrow> inv_call w"
  by (auto simp: reachable_def inv_call_exec inv_call_NewDB)

subsection \<open>Close\<close>

lemma Close_ready:
  assumes "isReady w" "pool w = Some h" "done_ch w = ChOpen" "notifyConnClose w = ChOpen"
    "MonSending \<notin> set (monitors w)"
  shows "Close w =
    (Returns None,
     w\<lparr>stdout := stdout w @ [''Stopping DB''], closed_pools := insert h (closed_pools w),
       done_ch := ChClosed, notifyConnClose := ChClosed, isReady := False\<rparr>)"
  using assms by (simp add: Close_def Println_def)

lemma supervisor_iter_not_returned:
  "supervisor w \<noteq> SupReturned \<Longrightarrow>
   supervisor (handleReconnect_iter w NewWithConfig Ping) \<noteq> SupReturned"
  by (cases rule: iter_cases [where NewWithConfig = NewWithConfig and Ping = Ping and w = w])
    (simp_all add: iter_open_fails iter_ping_fails iter_succeeds)

lemma supervisor_not_returned:
  assumes "done_ch w = ChOpen" "supervisor w \<noteq> SupReturned"
  shows "supervisor (handleReconnect_step w first NewWithConfig Ping) \<noteq> SupReturned"
  using assms
  by (cases "supervisor w")
    (simp_all add: handleReconnect_step_def select2_def supervisor_iter_not_returned
      recv_def Println_def)

lemma caller_keeps_waiting:
  assumes "\<not> isReady w" "done_ch w = ChOpen" "i < length (callers w)"
    "\<forall>r. callers w ! i \<noteq> CallReturned r"
  shows "\<forall>r. callers (GetConnection_step w i first Acquire) ! i \<noteq> CallReturned r"
proof -
  from assms(1) have "GetConnection_iter w i Acquire =
      w\<lparr>stdout := stdout w @ [''Push failed. Retrying...''],
        callers := (callers w)[i := CallBackoff (clock w + reconnectDelay)]\<rparr>"
    by (simp add: GetConnection_iter_def getConnection_def Println_def)
  with assms show ?thesis
    by (cases "callers w ! i") (simp_all add: GetConnection_step_def select2_def)
qed

text \<open>
  What holds of two calls of \<^verbatim>\<open>Close\<close>: on a session that is not ready the call returns
  \<^verbatim>\<open>errAlreadyClosed\<close>; on a ready session of a running process, as long as \<^verbatim>\<open>done\<close>
  is open and no monitor is blocked in its send, it returns nil and leaves the session not
  ready, so that the next call returns \<^verbatim>\<open>errAlreadyClosed\<close>.
\<close>

lemma Close_twice_while_open:
  "(\<not> isReady w \<longrightarrow> fst (Close w) = Returns (Some errAlreadyClosed)) \<and>
   fst (Close (NewDB_state p cfg)) = Returns (Some errAlreadyClosed) \<and>
   (reachable w \<and> isReady w \<and> done_ch w = ChOpen \<and> MonSending \<notin> set (monitors w) \<longrightarrow>
      fst (Close w) = Returns None \<and>
      \<not> isReady (snd (Close w)) \<and>
      fst (Close (snd (Close w))) = Returns (Some errAlreadyClosed))"
proof (intro conjI impI)
  show "fst (Close w) = Returns (Some errAlreadyClosed)" if "\<not> isReady w"
    using that by (simp add: Close_not_ready)
  show "fst (Close (NewDB_state p cfg)) = Returns (Some errAlreadyClosed)"
    by (simp add: Close_not_ready NewDB_state_def)
next
  assume a: "reachable w \<and> isReady w \<and> done_ch w = ChOpen \<and> MonSending \<notin> set (monitors w)"
  then have "inv_base w" "inv_open w"
    by (simp_all add: reachable_inv_base reachable_inv_open)
  with a obtain h where h: "pool w = Some h" "notifyConnClose w = ChOpen"
    by (auto simp: inv_base_def inv_open_def)
  note c = Close_ready [OF _ h(1) _ h(2)]
  from a show "fst (Close w) = Returns None" by (simp add: c)
  from a show "\<not> isReady (snd (Close w))" by (simp add: c)
  from a show "fst (Close (snd (Close w))) = Returns (Some errAlreadyClosed)"
    by (simp add: c Close_not_ready)
qed

subsection \<open>The log of attempts\<close>

lemma is_error_line_Error [simp]:
  "is_error_line (CHR ''D'' # CHR ''B'' # CHR '' '' # CHR ''E'' # CHR ''r'' # CHR ''r'' #
     CHR ''o'' # CHR ''r'' # CHR '':'' # CHR '' '' # m)"
  by (simp add: is_error_line_def)

lemma is_error_line_literals [simp]:
  "\<not> is_error_line ''DB attempting to connect''"
  "\<not> is_error_line ''DB connected!''"
  "\<not> is_error_line ''DB setup!''"
  "\<not> is_error_line ''Stopping DB''"
  "\<not> is_error_line ''Push failed. Retrying...''"
  "\<not> is_error_line ''DB connection closed. Reconnecting...''"
  by (simp_all add: is_error_line_def)

lemmas log_defs = attempts_def failures_def successes_def attempt_results_def
  attempt_succeeded_def

lemma log_append:
  assumes "stdout w' = stdout w @ ls"
  shows "attempts w' = attempts w + count_list ls ''DB attempting to connect''"
    and "failures w' = failures w + length (filter is_error_line ls)"
    and "successes w' = successes w + count_list ls ''DB connected!''"
    and "attempt_results w' =
           attempt_results w @ filter (\<lambda>l. l = ''DB connected!'' \<or> is_error_line l) ls"
  using assms by (simp_all add: log_defs)

lemma log_same:
  assumes "stdout w' = stdout w"
  shows "attempts w' = attempts w" "failures w' = failures w" "successes w' = successes w"
    "attempt_results w' = attempt_results w" "attempt_succeeded w' = attempt_succeeded w"
  using assms by (simp_all add: log_defs)

lemma log_other:
  assumes "stdout w' = stdout w @ [l]" "other_line l"
  shows "attempts w' = attempts w" "failures w' = failures w" "successes w' = successes w"
    "attempt_results w' = attempt_results w" "attempt_succeeded w' = attempt_succeeded w"
proof -
  from assms(2) have l: "l \<noteq> ''DB attempting to connect''" "l \<noteq> ''DB connected!''"
    "\<not> is_error_line l"
    unfolding other_line_def by auto
  with assms(1) show "attempts w' = attempts w" "failures w' = failures w"
    "successes w' = successes w" "attempt_results w' = attempt_results w"
    by (simp_all add: log_append [OF assms(1)])
  then show "attempt_succeeded w' = attempt_succeeded w"
    by (simp add: attempt_succeeded_def)
qed

lemma log_open_fails:
  assumes "stdout w' = stdout w @ [''DB attempting to connect'', ''DB Error: '' @ m]"
  shows "attempts w' = Suc (attempts w)" "failures w' = Suc (failures w)"
    "successes w' = successes w" "\<not> attempt_succeeded w'"
proof -
  show "attempts w' = Suc (attempts w)" "failures w' = Suc (failures w)"
    "successes w' = successes w"
    by (simp_all add: log_append [OF assms])
  have "attempt_results w' = attempt_results w @ [''DB Error: '' @ m]"
    by (simp add: log_append [OF assms])
  then show "\<not> attempt_succeeded w'"
    by (simp add: attempt_succeeded_def)
qed

lemma log_succeeds:
  assumes "stdout w' = stdout w @ [''DB attempting to connect'', ''DB connected!'', ''DB setup!'']"
  shows "attempts w' = Suc (attempts w)" "failures w' = failures w"
    "successes w' = Suc (successes w)" "attempt_succeeded w'"
proof -
  show "attempts w' = Suc (attempts w)" "failures w' = failures w"
    "successes w' = Suc (successes w)"
    by (simp_all add: log_append [OF assms])
  have "attempt_results w' = attempt_results w @ [''DB connected!'']"
    by (simp add: log_append [OF assms])
  then show "attempt_succeeded w'"
    by (simp add: attempt_succeeded_def)
qed

lemma supervisor_step_cases:
  obtains (blocked) "handleReconnect_step w first NewWithConfig Ping = w"
  | (returned) "done_ch w = ChClosed"
      "handleReconnect_step w first NewWithConfig Ping = w\<lparr>supervisor := SupReturned\<rparr>"
  | (start) "supervisor w = SupStart"
      "handleReconnect_step w first NewWithConfig Ping = handleReconnect_iter w NewWithConfig Ping"
  | (timer) t where "supervisor w = SupBackoff t" "t \<le> clock w"
      "handleReconnect_step w first NewWithConfig Ping = handleReconnect_iter w NewWithConfig Ping"
  | (notified) "supervisor w = SupWait" "recv_ready w"
      "handleReconnect_step w first NewWithConfig Ping =
         handleReconnect_iter (Println ''DB connection closed. Reconnecting...'' (recv w))
           NewWithConfig Ping"
proof (cases "supervisor w")
  case SupStart
  then show ?thesis using start by (simp add: handleReconnect_step_def)
next
  case (SupBackoff t)
  show ?thesis
  proof (cases "select2 first (done_ch w = ChClosed) (t \<le> clock w)")
    case None
    with SupBackoff show ?thesis using blocked by (simp add: handleReconnect_step_def)
  next
    case (Some c)
    show ?thesis
    proof (cases c)
      case Case1
      with Some have "done_ch w = ChClosed" by (simp add: select2_def split: if_splits)
      with SupBackoff Some Case1 show ?thesis using returned
        by (simp add: handleReconnect_step_def)
    next
      case Case2
      with Some have "t \<le> clock w" by (simp add: select2_def split: if_splits)
      with SupBackoff Some Case2 show ?thesis using timer
        by (simp add: handleReconnect_step_def)
    qed
  qed
next
  case SupWait
  show ?thesis
  proof (cases "select2 first (done_ch w = ChClosed) (recv_ready w)")
    case None
    with SupWait show ?thesis using blocked by (simp add: handleReconnect_step_def)
  next
    case (Some c)
    show ?thesis
    proof (cases c)
      case Case1
      with Some have "done_ch w = ChClosed" by (simp add: select2_def split: if_splits)
      with SupWait Some Case1 show ?thesis using returned
        by (simp add: handleReconnect_step_def)
    next
      case Case2
      with Some have "recv_ready w" by (simp add: select2_def split: if_splits)
      with SupWait Some Case2 show ?thesis using notified
        by (simp add: handleReconnect_step_def)
    qed
  qed
next
  case SupReturned
  then show ?thesis using blocked by (simp add: handleReconnect_step_def)
qed

lemma inv_log_iter:
  assumes "inv_log w" "supervisor w = SupStart \<or> supervisor w = SupWait \<or>
     (\<exists>t. supervisor w = SupBackoff t \<and> t \<le> clock w)"
  shows "inv_log (handleReconnect_iter w NewWithConfig Ping)"
proof -
  from assms have c: "failures w * reconnectDelay \<le> clock w"
    "attempts w = failures w + successes w"
    by (auto simp: inv_log_def)
  let ?w = "handleReconnect_iter w NewWithConfig Ping"
  have fails: "inv_log ?w"
    if "stdout ?w = stdout w @ [''DB attempting to connect'', ''DB Error: '' @ m]"
      "\<not> isReady ?w" "supervisor ?w = SupBackoff (clock w + reconnectDelay)" for m
    using that(2,3) c log_open_fails [OF that(1)] by (simp add: inv_log_def)
  show ?thesis
  proof (cases rule: iter_cases [where NewWithConfig = NewWithConfig and Ping = Ping and w = w])
    case (open_fails err)
    then show ?thesis by (intro fails [of "Error err"]) (simp_all add: iter_open_fails)
  next
    case (ping_fails err)
    then show ?thesis by (intro fails [of "Error err"]) (simp_all add: iter_ping_fails)
  next
    case succeeds
    then have "stdout ?w =
        stdout w @ [''DB attempting to connect'', ''DB connected!'', ''DB setup!'']"
      "supervisor ?w = SupWait" "clock ?w = clock w"
      by (simp_all add: iter_succeeds)
    then show ?thesis using c log_succeeds [OF \<open>stdout ?w = _\<close>] by (simp add: inv_log_def)
  qed
qed

lemma inv_log_frame:
  assumes "inv_log w" "stdout w' = stdout w \<or> (\<exists>l. stdout w' = stdout w @ [l] \<and> other_line l)"
    "isReady w' \<longrightarrow> isReady w" "clock w \<le> clock w'"
    "supervisor w' = supervisor w \<or> supervisor w' = SupReturned"
  shows "inv_log w'"
proof -
  from assms(2) have l: "attempts w' = attempts w" "failures w' = failures w"
    "successes w' = successes w" "attempt_results w' = attempt_results w"
    "attempt_succeeded w' = attempt_succeeded w"
    using log_same [of w' w] log_other [of w' w] by auto
  from assms(1,3,4,5) show ?thesis
    unfolding inv_log_def l
    by (cases "supervisor w") (auto intro: order_trans)
qed

lemma inv_log_supervisor:
  assumes "inv_log w"
  shows "inv_log (handleReconnect_step w first NewWithConfig Ping)"
proof (cases rule: supervisor_step_cases
    [where w = w and first = first and NewWithConfig = NewWithConfig and Ping = Ping])
  case blocked
  with assms show ?thesis by simp
next
  case returned
  then show ?thesis by (intro inv_log_frame [OF assms]) simp_all
next
  case start
  with assms show ?thesis by (simp add: inv_log_iter)
next
  case (timer t)
  with assms show ?thesis by (simp add: inv_log_iter)
next
  case notified
  let ?v = "Println ''DB connection closed. Reconnecting...'' (recv w)"
  have "inv_log ?v"
    by (intro inv_log_frame [OF assms]) (simp_all add: Println_def recv_def other_line_def)
  moreover have "supervisor ?v = SupWait"
    using notified by (simp add: Println_def recv_def)
  ultimately show ?thesis using notified by (simp add: inv_log_iter)
qed

lemma inv_log_monitor: "inv_log w \<Longrightarrow> inv_log (monitor_step w i Ping)"
  by (erule inv_log_frame)
    (simp_all add: monitor_step_def split: mon_pc.split option.split outcome.split)

lemma inv_log_Close: "inv_log w \<Longrightarrow> inv_log (Close_call w)"
  by (erule inv_log_frame)
    (simp_all add: Close_call_def Close_def Println_def Let_def other_line_def
      split: option.split)

lemma inv_log_caller: "inv_log w \<Longrightarrow> inv_log (GetConnection_step w i first Acquire)"
  by (erule inv_log_frame)
    (simp_all add: GetConnection_step_def GetConnection_iter_def Println_def other_line_def
      split: call_pc.split option.split outcome.split select_case.split sum.split)

lemma inv_log_step: "inv_log w \<Longrightarrow> inv_log (step w e)"
proof (cases e)
  case (Tick d)
  assume "inv_log w"
  then have "inv_log (w\<lparr>clock := clock w + d\<rparr>)"
    by (rule inv_log_frame) simp_all
  with \<open>inv_log w\<close> Tick show ?thesis by (simp add: step_def)
next
  case CallGetConnection
  assume "inv_log w"
  then have "inv_log (w\<lparr>callers := callers w @ [CallStart]\<rparr>)"
    by (rule inv_log_frame) simp_all
  with \<open>inv_log w\<close> CallGetConnection show ?thesis by (simp add: step_def)
qed (simp_all add: step_def inv_log_supervisor inv_log_monitor inv_log_Close inv_log_caller)

lemma inv_log_exec: "inv_log w \<Longrightarrow> inv_log (exec w evs)"
  unfolding exec_def by (induction evs arbitrary: w) (simp_all add: inv_log_step)

lemma inv_log_NewDB: "inv_log (NewDB_state p cfg)"
  by (simp add: inv_log_def NewDB_state_def log_defs is_error_line_def)

lemma reachable_inv_log: "reachable w \<Longrightarrow> inv_log w"
  by (auto simp: reachable_def inv_log_exec inv_log_NewDB)

subsection \<open>Runs of failed attempts\<close>

lemma exec_append: "exec w (xs @ ys) = exec (exec w xs) ys"
  by (simp add: exec_def)

lemma exec_Nil [simp]: "exec w [] = w"
  by (simp add: exec_def)

lemma exec_Cons: "exec w (e # evs) = exec (step w e) evs"
  by (simp add: exec_def)

lemma log_clock [simp]:
  "attempts (w\<lparr>clock := c\<rparr>) = attempts w"
  "failures (w\<lparr>clock := c\<rparr>) = failures w"
  "successes (w\<lparr>clock := c\<rparr>) = successes w"
  by (simp_all add: log_defs)

lemma failed_rounds_state:
  fixes p cfg n err
  defines "w \<equiv> exec (NewDB_state p cfg) (failed_rounds n err)"
  shows "panicked w = None \<and> done_ch w = ChOpen \<and> \<not> isReady w \<and> next_handle w = 0 \<and>
         attempts w = n \<and> failures w = n \<and> successes w = 0 \<and>
         clock w = n * reconnectDelay \<and>
         supervisor w = (if n = 0 then SupStart else SupBackoff (n * reconnectDelay))"
  unfolding w_def
proof (induction n)
  case 0
  show ?case by (simp add: NewDB_state_def log_defs is_error_line_def)
next
  case (Suc n)
  let ?w = "exec (NewDB_state p cfg) (failed_rounds n err)"
  let ?v = "handleReconnect_iter ?w (Some err) healthy"
  from Suc.IH have "handleReconnect_step ?w True (Some err) healthy = ?v"
    by (simp add: handleReconnect_step_def select2_def)
  with Suc.IH have e: "exec (NewDB_state p cfg) (failed_rounds (Suc n) err) =
      ?v\<lparr>clock := clock ?v + reconnectDelay\<rparr>"
    by (simp add: exec_append exec_Cons step_def iter_open_fails)
  have s: "stdout ?v = stdout ?w @ [''DB attempting to connect'', ''DB Error: '' @ Error err]"
    by (simp add: iter_open_fails)
  have v: "attempts ?v = Suc n" "failures ?v = Suc n" "successes ?v = 0"
    using log_open_fails [OF s] Suc.IH by simp_all
  have f: "panicked ?v = None" "done_ch ?v = ChOpen" "\<not> isReady ?v" "next_handle ?v = 0"
    "clock ?v = n * reconnectDelay"
    "supervisor ?v = SupBackoff (n * reconnectDelay + reconnectDelay)"
    using Suc.IH by (simp_all add: iter_open_fails)
  show ?case
    unfolding e using v f by simp
qed

subsection \<open>The parameters are not read\<close>










subsection \<open>The supervisor between attempts\<close>

lemma iter_backoff:
  assumes "NewWithConfig \<noteq> None \<or> Ping (next_handle w) \<noteq> None"
  shows "supervisor (handleReconnect_iter w NewWithConfig Ping) =
           SupBackoff (clock w + reconnectDelay)"
    and "\<not> isReady (handleReconnect_iter w NewWithConfig Ping)"
  using assms
  by (cases rule: iter_cases [where NewWithConfig = NewWithConfig and Ping = Ping and w = w];
      simp add: iter_open_fails iter_ping_fails)+

lemma iter_ready:
  "isReady (handleReconnect_iter w NewWithConfig Ping) \<longleftrightarrow>
     NewWithConfig = None \<and> Ping (next_handle w) = None"
  "supervisor (handleReconnect_iter w NewWithConfig Ping) = SupWait \<longleftrightarrow>
     NewWithConfig = None \<and> Ping (next_handle w) = None"
  by (cases rule: iter_cases [where NewWithConfig = NewWithConfig and Ping = Ping and w = w];
      simp add: iter_open_fails iter_ping_fails iter_succeeds)+

lemma connect_ok_iff:
  "fst (connect w NewWithConfig Ping) = Returns None \<longleftrightarrow>
     NewWithConfig = None \<and> Ping (next_handle w) = None"
  by (cases rule: iter_cases [where NewWithConfig = NewWithConfig and Ping = Ping and w = w])
    (simp_all add: connect_open_fails connect_ping_fails connect_succeeds)

lemma backoff_step:
  assumes "supervisor w = SupBackoff t" "done_ch w = ChOpen"
  shows "handleReconnect_step w first NewWithConfig Ping =
           (if t \<le> clock w then handleReconnect_iter w NewWithConfig Ping else w)"
  using assms by (simp add: handleReconnect_step_def select2_def)

lemma attempts_iter:
  "attempts (handleReconnect_iter w NewWithConfig Ping) = Suc (attempts w)"
proof (cases rule: iter_cases [where NewWithConfig = NewWithConfig and Ping = Ping and w = w])
  case (open_fails err)
  then show ?thesis
    by (intro log_open_fails(1) [where m = "Error err"]) (simp add: iter_open_fails)
next
  case (ping_fails err)
  then show ?thesis
    by (intro log_open_fails(1) [where m = "Error err"]) (simp add: iter_ping_fails)
next
  case succeeds
  then show ?thesis
    by (intro log_succeeds(1)) (simp add: iter_succeeds)
qed

lemma failed_rounds_next:
  fixes p cfg n err
  defines "w \<equiv> exec (NewDB_state p cfg) (failed_rounds n err)"
  shows "step w (Supervisor first NewWithConfig Ping) =
           handleReconnect_iter w NewWithConfig Ping"
proof -
  note s = failed_rounds_state [of p cfg n err, folded w_def]
  then show ?thesis
    by (cases "n = 0") (simp_all add: step_def handleReconnect_step_def select2_def)
qed

subsection \<open>Monitors\<close>

lemma isReady_monitor [simp]: "isReady (monitor_step w i Ping) = isReady w"
  by (simp add: monitor_step_def split: mon_pc.split option.split outcome.split)

lemma active_monitors_shape:
  assumes "monitors w = ms @ [m]" "active m" "\<forall>x\<in>set ms. \<not> active x"
  shows "active_monitors w = 1"
    and "\<forall>i<length (monitors w). active (monitors w ! i) \<longrightarrow> Suc i = length (monitors w)"
proof -
  from assms(3) have "filter active ms = []" by (simp add: filter_empty_conv)
  with assms(1,2) show "active_monitors w = 1" by (simp add: active_monitors_def)
  show "\<forall>i<length (monitors w). active (monitors w ! i) \<longrightarrow> Suc i = length (monitors w)"
  proof (intro allI impI)
    fix i assume i: "i < length (monitors w)" "active (monitors w ! i)"
    show "Suc i = length (monitors w)"
    proof (cases "i < length ms")
      case True
      with assms(1,3) i(2) show ?thesis by (simp add: nth_append)
    next
      case False
      with i(1) assms(1) show ?thesis by simp
    qed
  qed
qed

lemma active_monitors_none:
  assumes "\<forall>x\<in>set (monitors w). \<not> active x"
  shows "active_monitors w = 0"
    and "\<forall>i<length (monitors w). \<not> active (monitors w ! i)"
  using assms by (simp_all add: active_monitors_def filter_empty_conv)

lemma monitors_connect_fails:
  "fst (connect w NewWithConfig Ping) \<noteq> Returns None \<Longrightarrow>
   monitors (snd (connect w NewWithConfig Ping)) = monitors w"
  by (cases rule: iter_cases [where NewWithConfig = NewWithConfig and Ping = Ping and w = w])
    (simp_all add: connect_open_fails connect_ping_fails connect_succeeds)

text \<open>
  As long as \<^verbatim>\<open>done\<close> is open, at most one monitor is active; it is the one started
  last, and the supervisor is then in the \<^verbatim>\<open>select\<close> of line 78, so that no monitor of
  an earlier pool is left to send. A successful \<^verbatim>\<open>connect\<close> starts exactly one monitor,
  a failed one none. The last two parts say what a ping of a monitor and a notification
  do: the ping asks the pool that \<^verbatim>\<open>session.pool\<close> holds at that moment, and the
  supervisor, in that \<^verbatim>\<open>select\<close> with \<^verbatim>\<open>done\<close> open, receives and connects again.
\<close>

lemma one_monitor_while_open:
  "(reachable w \<and> done_ch w = ChOpen \<longrightarrow>
      active_monitors w \<le> 1 \<and>
      (\<forall>i<length (monitors w). active (monitors w ! i) \<longrightarrow>
         Suc i = length (monitors w) \<and> supervisor w = SupWait)) \<and>
   (Ping (next_handle w) = None \<longrightarrow>
      monitors (snd (connect w None Ping)) =
        monitors w @ [MonTicking (clock w + healthCheckDelay)]) \<and>
   (fst (connect w NewWithConfig Ping) \<noteq> Returns None \<longrightarrow>
      monitors (snd (connect w NewWithConfig Ping)) = monitors w) \<and>
   (i < length (monitors w) \<and> monitors w ! i = MonTicking t \<and> t \<le> clock w \<and>
    pool w = Some h \<longrightarrow>
      monitor_step w i Ping =
        (case Ping h of
           None \<Rightarrow> w\<lparr>monitors := (monitors w)[i := MonTicking (next_tick t (clock w))]\<rparr>
         | Some err \<Rightarrow>
             if notifyConnClose w = ChClosed
             then w\<lparr>panicked := Some ''send on closed channel''\<rparr>
             else w\<lparr>monitors := (monitors w)[i := MonSending]\<rparr>)) \<and>
   (supervisor w = SupWait \<and> done_ch w = ChOpen \<and> MonSending \<in> set (monitors w) \<longrightarrow>
      handleReconnect_step w first NewWithConfig Ping =
        handleReconnect_iter (Println ''DB connection closed. Reconnecting...'' (recv w))
          NewWithConfig Ping)"
proof (intro conjI impI)
  assume a: "reachable w \<and> done_ch w = ChOpen"
  then have o: "inv_open w" by (simp add: reachable_inv_open)
  show "active_monitors w \<le> 1"
  proof (cases "supervisor w = SupWait")
    case True
    with a o obtain ms m where "monitors w = ms @ [m]" "active m" "\<forall>x\<in>set ms. \<not> active x"
      by (auto simp: inv_open_def)
    then show ?thesis using active_monitors_shape(1) [of w ms m] by simp
  next
    case False
    with a o have "\<forall>x\<in>set (monitors w). \<not> active x" by (simp add: inv_open_def)
    then show ?thesis using active_monitors_none(1) [of w] by simp
  qed
  show "\<forall>i<length (monitors w). active (monitors w ! i) \<longrightarrow>
         Suc i = length (monitors w) \<and> supervisor w = SupWait"
  proof (cases "supervisor w = SupWait")
    case True
    with a o obtain ms m where "monitors w = ms @ [m]" "active m" "\<forall>x\<in>set ms. \<not> active x"
      by (auto simp: inv_open_def)
    then show ?thesis using active_monitors_shape(2) [of w ms m] True by simp
  next
    case False
    with a o have "\<forall>x\<in>set (monitors w). \<not> active x" by (simp add: inv_open_def)
    then show ?thesis using active_monitors_none(2) [of w] by simp
  qed
next
  assume "Ping (next_handle w) = None"
  then show "monitors (snd (connect w None Ping)) =
        monitors w @ [MonTicking (clock w + healthCheckDelay)]"
    by (simp add: connect_succeeds)
next
  assume "fst (connect w NewWithConfig Ping) \<noteq> Returns None"
  then show "monitors (snd (connect w NewWithConfig Ping)) = monitors w"
    by (rule monitors_connect_fails)
next
  assume "i < length (monitors w) \<and> monitors w ! i = MonTicking t \<and> t \<le> clock w \<and>
    pool w = Some h"
  then show "monitor_step w i Ping =
        (case Ping h of
           None \<Rightarrow> w\<lparr>monitors := (monitors w)[i := MonTicking (next_tick t (clock w))]\<rparr>
         | Some err \<Rightarrow>
             if notifyConnClose w = ChClosed
             then w\<lparr>panicked := Some ''send on closed channel''\<rparr>
             else w\<lparr>monitors := (monitors w)[i := MonSending]\<rparr>)"
    by (simp add: monitor_step_def ping_def split: option.split)
next
  assume "supervisor w = SupWait \<and> done_ch w = ChOpen \<and> MonSending \<in> set (monitors w)"
  then show "handleReconnect_step w first NewWithConfig Ping =
        handleReconnect_iter (Println ''DB connection closed. Reconnecting...'' (recv w))
          NewWithConfig Ping"
    by (simp add: handleReconnect_step_def select2_def recv_ready_def)
qed

subsection \<open>The claims\<close>

text \<open>
  C10. \<^verbatim>\<open>connect\<close> stores the new pool in \<^verbatim>\<open>session.pool\<close> before it pings it. When
  the open succeeds and the ping of the new pool fails, \<^verbatim>\<open>connect\<close> returns the ping
  error, the session holds the new pool, and nothing else has changed: no pool has been
  closed, the pool field has not been cleared, the session is as ready as before and no
  monitor has been started.
\<close>

theorem C10_connect_keeps_unhealthy_pool:
  assumes "Ping (next_handle w) = Some err"
  shows "connect w None Ping =
           (Returns (Some err),
            w\<lparr>pool := Some (next_handle w), next_handle := Suc (next_handle w)\<rparr>) \<and>
         closed_pools (snd (connect w None Ping)) = closed_pools w \<and>
         isReady (snd (connect w None Ping)) = isReady w \<and>
         monitors (snd (connect w None Ping)) = monitors w"
  using assms by (simp add: connect_ping_fails)

theorem C10_witness:
  "unhealthy (next_handle (exec started [Supervisor True None healthy])) =
     Some (errAdapter ''connection refused'') \<and>
   pool (exec started [Supervisor True None healthy]) = Some 0 \<and>
   fst (connect (exec started [Supervisor True None healthy]) None unhealthy) =
     Returns (Some (errAdapter ''connection refused'')) \<and>
   pool (snd (connect (exec started [Supervisor True None healthy]) None unhealthy)) = Some 1 \<and>
   closed_pools (snd (connect (exec started [Supervisor True None healthy]) None unhealthy)) = {}"
proof -
  let ?w = "exec started [Supervisor True None healthy]"
  have h: "unhealthy (next_handle ?w) = Some (errAdapter ''connection refused'')"
    by (simp add: unhealthy_def)
  have 0: "pool ?w = Some 0" "next_handle ?w = 1" "closed_pools ?w = {}"
    by (simp_all add: run_defs)
  from C10_connect_keeps_unhealthy_pool [where Ping = unhealthy and w = ?w, OF h] h 0
  show ?thesis by simp
qed

text \<open>
  C8 fails on the code. The first \<^verbatim>\<open>Close\<close> on a ready session returns nil. But a ready
  session need not be one whose channels are open: when the supervisor has connected
  again after that \<^verbatim>\<open>Close\<close> (the defect of C2), the session is ready, and the next
  \<^verbatim>\<open>Close\<close> returns neither nil nor \<^verbatim>\<open>errAlreadyClosed\<close>: it closes the new pool and
  panics at line 160, \<^verbatim>\<open>close(session.done)\<close>, on the channel that is already closed.
  And \<^verbatim>\<open>Close\<close> on a ready session whose monitor is blocked in the send of line 106
  closes the channel under the sender, which panics.
\<close>

theorem C8_Close_panics_on_ready_session:
  "isReady (exec started [Supervisor True None healthy]) \<and>
   fst (Close (exec started [Supervisor True None healthy])) = Returns None \<and>
   isReady (exec started [Supervisor True None healthy, CallClose,
      Supervisor False None healthy]) \<and>
   panicked (exec started [Supervisor True None healthy, CallClose,
      Supervisor False None healthy]) = None \<and>
   done_ch (exec started [Supervisor True None healthy, CallClose,
      Supervisor False None healthy]) = ChClosed \<and>
   fst (Close (exec started [Supervisor True None healthy, CallClose,
      Supervisor False None healthy])) = Panics ''close of closed channel'' \<and>
   closed_pools (snd (Close (exec started [Supervisor True None healthy, CallClose,
      Supervisor False None healthy]))) = {0, 1} \<and>
   panicked (exec started [Supervisor True None healthy, CallClose,
      Supervisor False None healthy, CallClose]) = Some ''close of closed channel'' \<and>
   isReady (exec started [Supervisor True None healthy, Tick healthCheckDelay,
      Monitor 0 unhealthy]) \<and>
   done_ch (exec started [Supervisor True None healthy, Tick healthCheckDelay,
      Monitor 0 unhealthy]) = ChOpen \<and>
   fst (Close (exec started [Supervisor True None healthy, Tick healthCheckDelay,
      Monitor 0 unhealthy])) = Panics ''send on closed channel''"
  by (simp add: run_defs insert_commute)

text \<open>
  C9. \<^verbatim>\<open>Close\<close> on a session that is not ready returns \<^verbatim>\<open>errAlreadyClosed\<close> and
  changes nothing but the log: no channel is closed, no pool is closed. With \<^verbatim>\<open>done\<close>
  open as before, the next step of the supervisor does not return, and a caller that is
  waiting in \<^verbatim>\<open>GetConnection\<close> is not given the shutdown error (nor anything else) by
  its next step.
\<close>

theorem C9_Close_not_ready_changes_nothing:
  assumes "\<not> isReady w"
  shows "Close w = (Returns (Some errAlreadyClosed), w\<lparr>stdout := stdout w @ [''Stopping DB'']\<rparr>) \<and>
         Close_call w = w\<lparr>stdout := stdout w @ [''Stopping DB'']\<rparr> \<and>
         (reachable w \<and> done_ch w = ChOpen \<longrightarrow>
            done_ch (Close_call w) = ChOpen \<and>
            notifyConnClose (Close_call w) = ChOpen \<and>
            closed_pools (Close_call w) = closed_pools w \<and>
            supervisor (handleReconnect_step (Close_call w) first NewWithConfig Ping)
              \<noteq> SupReturned \<and>
            (\<forall>i<length (callers w). (\<forall>r. callers w ! i \<noteq> CallReturned r) \<longrightarrow>
               (\<forall>r. callers (GetConnection_step (Close_call w) i first' Acquire) ! i
                      \<noteq> CallReturned r)))"
proof -
  have c: "Close_call w = w\<lparr>stdout := stdout w @ [''Stopping DB'']\<rparr>"
    using assms by (simp add: Close_call_not_ready Println_def)
  have "Close w = (Returns (Some errAlreadyClosed), w\<lparr>stdout := stdout w @ [''Stopping DB'']\<rparr>)"
    using assms by (simp add: Close_not_ready Println_def)
  moreover note c
  moreover have "done_ch (Close_call w) = ChOpen \<and>
            notifyConnClose (Close_call w) = ChOpen \<and>
            closed_pools (Close_call w) = closed_pools w \<and>
            supervisor (handleReconnect_step (Close_call w) first NewWithConfig Ping)
              \<noteq> SupReturned \<and>
            (\<forall>i<length (callers w). (\<forall>r. callers w ! i \<noteq> CallReturned r) \<longrightarrow>
               (\<forall>r. callers (GetConnection_step (Close_call w) i first' Acquire) ! i
                      \<noteq> CallReturned r))"
    if r: "reachable w" and d: "done_ch w = ChOpen"
  proof -
    from r d have o: "notifyConnClose w = ChOpen" "supervisor w \<noteq> SupReturned"
      using reachable_inv_open [OF r] by (simp_all add: inv_open_def)
    have "supervisor (handleReconnect_step (Close_call w) first NewWithConfig Ping) \<noteq> SupReturned"
      using d o by (intro supervisor_not_returned) (simp_all add: c)
    moreover have "\<forall>r. callers (GetConnection_step (Close_call w) i first' Acquire) ! i
                      \<noteq> CallReturned r"
      if "i < length (callers w)" "\<forall>r. callers w ! i \<noteq> CallReturned r" for i
      using that assms d by (intro caller_keeps_waiting) (simp_all add: c)
    ultimately show ?thesis using d o by (simp add: c)
  qed
  ultimately show ?thesis by blast
qed

theorem C9_witness:
  "\<not> isReady (exec started [Supervisor True (Some (errAdapter ''down'')) healthy, CallGetConnection,
       Caller 0 True lends]) \<and>
   callers (exec started [Supervisor True (Some (errAdapter ''down'')) healthy, CallGetConnection,
       Caller 0 True lends]) = [CallBackoff reconnectDelay] \<and>
   fst (Close (exec started [Supervisor True (Some (errAdapter ''down'')) healthy,
       CallGetConnection, Caller 0 True lends])) = Returns (Some errAlreadyClosed) \<and>
   done_ch (Close_call (exec started [Supervisor True (Some (errAdapter ''down'')) healthy,
       CallGetConnection, Caller 0 True lends])) = ChOpen \<and>
   (\<forall>r. callers (GetConnection_step (Close_call (exec started
       [Supervisor True (Some (errAdapter ''down'')) healthy, CallGetConnection,
        Caller 0 True lends])) 0 True lends) ! 0 \<noteq> CallReturned r)"
proof -
  let ?w = "exec started [Supervisor True (Some (errAdapter ''down'')) healthy, CallGetConnection,
       Caller 0 True lends]"
  have 1: "reachable ?w" by (rule reachable_exec_started)
  have 2: "\<not> isReady ?w" "done_ch ?w = ChOpen" "callers ?w = [CallBackoff reconnectDelay]"
    by (simp_all add: run_defs)
  have 3: "fst (Close ?w) = Returns (Some errAlreadyClosed)"
    using C9_Close_not_ready_changes_nothing [OF 2(1)] by simp
  from C9_Close_not_ready_changes_nothing [OF 2(1), of True None healthy True lends] 1 2
  have "done_ch (Close_call ?w) = ChOpen \<and>
    (\<forall>i<length (callers ?w). (\<forall>r. callers ?w ! i \<noteq> CallReturned r) \<longrightarrow>
       (\<forall>r. callers (GetConnection_step (Close_call ?w) i True lends) ! i \<noteq> CallReturned r))"
    by blast
  then have "done_ch (Close_call ?w) = ChOpen \<and>
       (\<forall>r. callers (GetConnection_step (Close_call ?w) 0 True lends) ! 0 \<noteq> CallReturned r)"
    unfolding 2(3) by simp
  with 2 3 show ?thesis by blast
qed

text \<open>
  C6. \<^verbatim>\<open>GetConnection\<close> hands no error of the pool to its caller. In every state the
  process can reach, what a caller has been given is a connection or \<^verbatim>\<open>errShutdown\<close>,
  the latter only with \<^verbatim>\<open>done\<close> closed. An iteration in which \<^verbatim>\<open>getConnection\<close>
  fails, for whatever reason, ends in the \<^verbatim>\<open>select\<close> with a timer of
  \<^verbatim>\<open>reconnectDelay\<close>; while \<^verbatim>\<open>done\<close> is open the caller leaves it only when the timer
  has fired, and then runs another iteration. A connection is returned only when the
  session is ready and \<^verbatim>\<open>Acquire\<close> on its pool returned that connection.
\<close>

theorem C6_GetConnection_absorbs_errors:
  "(reachable w \<and> CallReturned r \<in> set (callers w) \<longrightarrow>
      (\<exists>c. r = Inr c) \<or> (r = Inl errShutdown \<and> done_ch w = ChClosed)) \<and>
   (getConnection w Acquire = Returns (Inl err) \<longrightarrow>
      GetConnection_iter w i Acquire =
        (Println ''Push failed. Retrying...'' w)
          \<lparr>callers := (callers w)[i := CallBackoff (clock w + reconnectDelay)]\<rparr>) \<and>
   (i < length (callers w) \<and> callers w ! i = CallBackoff t \<and> done_ch w = ChOpen \<longrightarrow>
      GetConnection_step w i first Acquire =
        (if t \<le> clock w then GetConnection_iter w i Acquire else w)) \<and>
   (getConnection w Acquire = Returns (Inr c) \<longrightarrow>
      isReady w \<and> (\<exists>h. pool w = Some h \<and> Acquire h = Inr c))"
proof (intro conjI impI)
  assume "reachable w \<and> CallReturned r \<in> set (callers w)"
  then show "(\<exists>c. r = Inr c) \<or> (r = Inl errShutdown \<and> done_ch w = ChClosed)"
    using reachable_inv_call [of w] by (simp add: inv_call_def)
next
  assume "getConnection w Acquire = Returns (Inl err)"
  then show "GetConnection_iter w i Acquire =
        (Println ''Push failed. Retrying...'' w)
          \<lparr>callers := (callers w)[i := CallBackoff (clock w + reconnectDelay)]\<rparr>"
    by (simp add: GetConnection_iter_def)
next
  assume "i < length (callers w) \<and> callers w ! i = CallBackoff t \<and> done_ch w = ChOpen"
  then show "GetConnection_step w i first Acquire =
        (if t \<le> clock w then GetConnection_iter w i Acquire else w)"
    by (simp add: GetConnection_step_def select2_def)
next
  assume a: "getConnection w Acquire = Returns (Inr c)"
  then show "isReady w"
    by (cases rule: getConnection_cases [where w = w and Acquire = Acquire]) simp_all
  from a show "\<exists>h. pool w = Some h \<and> Acquire h = Inr c"
    by (cases rule: getConnection_cases [where w = w and Acquire = Acquire]) simp_all
qed

theorem C6_witness:
  "reachable (exec started [Supervisor True None healthy, CallGetConnection, CallGetConnection,
      Caller 0 True refuses, Caller 1 True lends, CallClose, Caller 0 True refuses]) \<and>
   callers (exec started [Supervisor True None healthy, CallGetConnection, CallGetConnection,
      Caller 0 True refuses, Caller 1 True lends, CallClose, Caller 0 True refuses]) =
     [CallReturned (Inl errShutdown), CallReturned (Inr 7)] \<and>
   done_ch (exec started [Supervisor True None healthy, CallGetConnection, CallGetConnection,
      Caller 0 True refuses, Caller 1 True lends, CallClose, Caller 0 True refuses]) = ChClosed \<and>
   callers (exec started [Supervisor True None healthy, CallGetConnection,
      Caller 0 True refuses]) = [CallBackoff reconnectDelay]"
proof -
  let ?w = "exec started [Supervisor True None healthy, CallGetConnection, CallGetConnection,
      Caller 0 True refuses, Caller 1 True lends, CallClose, Caller 0 True refuses]"
  let ?v = "exec started [Supervisor True None healthy, CallGetConnection]"
  have 1: "reachable ?w" by (rule reachable_exec_started)
  have 2: "callers ?w = [CallReturned (Inl errShutdown), CallReturned (Inr 7)]"
    by (simp add: run_defs)
  have 3: "getConnection ?v refuses = Returns (Inl (errAdapter ''pool exhausted''))"
    by (simp add: run_defs)
  have 4: "callers (exec started [Supervisor True None healthy, CallGetConnection,
      Caller 0 True refuses]) = callers (GetConnection_iter ?v 0 refuses)"
    by (simp add: run_defs)
  have 5: "callers ?v = [CallStart]" "clock ?v = 0"
    by (simp_all add: run_defs)
  from C6_GetConnection_absorbs_errors [of ?w "Inl errShutdown"] 1 2
  have "done_ch ?w = ChClosed" by simp
  moreover from C6_GetConnection_absorbs_errors [of ?v _ refuses "errAdapter ''pool exhausted''" 0] 3
  have "callers (GetConnection_iter ?v 0 refuses) = [CallBackoff reconnectDelay]"
    by (simp add: 5 Println_def)
  ultimately show ?thesis using 1 2 4 by simp
qed



text \<open>
  C7. An iteration of the supervisor makes the session ready exactly when the open and
  the ping of the new pool both succeed; otherwise it ends in the \<^verbatim>\<open>select\<close> with a
  timer of \<^verbatim>\<open>reconnectDelay\<close>, which the supervisor does not leave before the timer
  has fired. In every state the process can reach, a ready session has had one attempt
  more than it has had failures, and \<^verbatim>\<open>reconnectDelay\<close> has passed for each failure.
  When the open fails \<open>n\<close> times, the session is not ready after these \<open>n\<close> attempts, and
  the attempt that succeeds is attempt \<open>n + 1\<close>, no earlier than \<open>n\<close> delays after the
  start.
\<close>

theorem C7_ready_after_successful_attempt:
  "(isReady (handleReconnect_iter w NewWithConfig Ping) \<longleftrightarrow>
      NewWithConfig = None \<and> Ping (next_handle w) = None) \<and>
   (supervisor (handleReconnect_iter w NewWithConfig Ping) = SupWait \<longleftrightarrow>
      NewWithConfig = None \<and> Ping (next_handle w) = None) \<and>
   (fst (connect w NewWithConfig Ping) = Returns None \<longleftrightarrow>
      NewWithConfig = None \<and> Ping (next_handle w) = None) \<and>
   (NewWithConfig \<noteq> None \<or> Ping (next_handle w) \<noteq> None \<longrightarrow>
      supervisor (handleReconnect_iter w NewWithConfig Ping) =
        SupBackoff (clock w + reconnectDelay)) \<and>
   (supervisor w = SupBackoff t \<and> done_ch w = ChOpen \<and> clock w < t \<longrightarrow>
      handleReconnect_step w first NewWithConfig Ping = w) \<and>
   (reachable w \<and> isReady w \<longrightarrow>
      0 < successes w \<and> attempts w = failures w + successes w \<and>
      failures w * reconnectDelay \<le> clock w) \<and>
   (let v = exec (NewDB_state p cfg) (failed_rounds n err) in
      \<not> isReady v \<and> attempts v = n \<and> clock v = n * reconnectDelay \<and>
      (Ping 0 = None \<longrightarrow>
         isReady (step v (Supervisor first None Ping)) \<and>
         attempts (step v (Supervisor first None Ping)) = Suc n \<and>
         clock (step v (Supervisor first None Ping)) = n * reconnectDelay))"
proof (intro conjI impI)
  show "isReady (handleReconnect_iter w NewWithConfig Ping) \<longleftrightarrow>
      NewWithConfig = None \<and> Ping (next_handle w) = None"
    by (rule iter_ready)
  show "supervisor (handleReconnect_iter w NewWithConfig Ping) = SupWait \<longleftrightarrow>
      NewWithConfig = None \<and> Ping (next_handle w) = None"
    by (rule iter_ready)
  show "fst (connect w NewWithConfig Ping) = Returns None \<longleftrightarrow>
      NewWithConfig = None \<and> Ping (next_handle w) = None"
    by (rule connect_ok_iff)
next
  assume "NewWithConfig \<noteq> None \<or> Ping (next_handle w) \<noteq> None"
  then show "supervisor (handleReconnect_iter w NewWithConfig Ping) =
        SupBackoff (clock w + reconnectDelay)"
    by (rule iter_backoff)
next
  assume "supervisor w = SupBackoff t \<and> done_ch w = ChOpen \<and> clock w < t"
  then show "handleReconnect_step w first NewWithConfig Ping = w"
    by (simp add: backoff_step)
next
  assume a: "reachable w \<and> isReady w"
  then have i: "inv_log w" by (simp add: reachable_inv_log)
  from a i show "0 < successes w" by (simp add: inv_log_def)
  from i show "attempts w = failures w + successes w" by (simp add: inv_log_def)
  from a i show "failures w * reconnectDelay \<le> clock w" by (simp add: inv_log_def)
next
  let ?v = "exec (NewDB_state p cfg) (failed_rounds n err)"
  note s = failed_rounds_state [of p cfg n err]
  have "isReady (step ?v (Supervisor first None Ping)) \<and>
         attempts (step ?v (Supervisor first None Ping)) = Suc n \<and>
         clock (step ?v (Supervisor first None Ping)) = n * reconnectDelay"
    if "Ping 0 = None"
    using that s by (simp add: failed_rounds_next attempts_iter iter_ready, simp add: iter_succeeds)
  with s show "let v = exec (NewDB_state p cfg) (failed_rounds n err) in
      \<not> isReady v \<and> attempts v = n \<and> clock v = n * reconnectDelay \<and>
      (Ping 0 = None \<longrightarrow>
         isReady (step v (Supervisor first None Ping)) \<and>
         attempts (step v (Supervisor first None Ping)) = Suc n \<and>
         clock (step v (Supervisor first None Ping)) = n * reconnectDelay)"
    by (simp add: Let_def)
qed

theorem C7_witness:
  "\<not> isReady (exec started (failed_rounds 2 (errAdapter ''down''))) \<and>
   attempts (exec started (failed_rounds 2 (errAdapter ''down''))) = 2 \<and>
   healthy 0 = None \<and>
   isReady (step (exec started (failed_rounds 2 (errAdapter ''down'')))
     (Supervisor True None healthy)) \<and>
   attempts (step (exec started (failed_rounds 2 (errAdapter ''down'')))
     (Supervisor True None healthy)) = 3 \<and>
   clock (step (exec started (failed_rounds 2 (errAdapter ''down'')))
     (Supervisor True None healthy)) = 2 * reconnectDelay \<and>
   reachable (exec started (failed_rounds 2 (errAdapter ''down'') @
     [Supervisor True None healthy])) \<and>
   failures (exec started (failed_rounds 2 (errAdapter ''down'') @
     [Supervisor True None healthy])) * reconnectDelay \<le>
     clock (exec started (failed_rounds 2 (errAdapter ''down'') @
     [Supervisor True None healthy]))"
proof -
  let ?v = "exec started (failed_rounds 2 (errAdapter ''down''))"
  let ?w = "exec started (failed_rounds 2 (errAdapter ''down'') @ [Supervisor True None healthy])"
  have h: "healthy 0 = None" by (simp add: healthy_def)
  note t = C7_ready_after_successful_attempt
    [where p = example_params and cfg = "''parsed''" and n = 2 and err = "errAdapter ''down''"
       and Ping = healthy and first = True and w = ?w, folded started_def]
  from t h have a: "\<not> isReady ?v" "attempts ?v = 2"
    "isReady (step ?v (Supervisor True None healthy))"
    "attempts (step ?v (Supervisor True None healthy)) = 3"
    "clock (step ?v (Supervisor True None healthy)) = 2 * reconnectDelay"
    by (simp_all add: Let_def)
  have e: "?w = step ?v (Supervisor True None healthy)"
    by (simp add: exec_append exec_Cons)
  have r: "reachable ?w" by (rule reachable_exec_started)
  with t a(3) e have "failures ?w * reconnectDelay \<le> clock ?w" by simp
  with a h r show ?thesis by blast
qed




text \<open>
  C5 fails on the code, by the defect of C2. \<^verbatim>\<open>Close\<close> runs after \<^verbatim>\<open>connect\<close> has set
  \<^verbatim>\<open>isReady\<close> and before the supervisor evaluates the \<^verbatim>\<open>select\<close> of line 78. Both
  channels are closed then, the \<^verbatim>\<open>select\<close> may take the receive from
  \<^verbatim>\<open>notifyConnClose\<close>, and the supervisor connects again. Now two monitors are active
  while one pool is live, and when a ping of the older monitor fails, its notification is
  not ignored: the send on the closed channel panics.
\<close>

theorem C5_two_monitors_after_Close:
  "\<not> active_monitors
       (exec started [Supervisor True None healthy, CallClose, Supervisor False None healthy])
     \<le> 1 \<and>
   live_pool (exec started [Supervisor True None healthy, CallClose,
      Supervisor False None healthy]) \<and>
   panicked (exec started [Supervisor True None healthy, CallClose,
      Supervisor False None healthy]) = None \<and>
   panicked (exec started [Supervisor True None healthy, CallClose,
      Supervisor False None healthy, Tick healthCheckDelay, Monitor 0 unhealthy]) =
     Some ''send on closed channel''"
  by (simp add: run_defs active_monitors_def active_def live_pool_def)

text \<open>
  C2 fails on the code. \<^verbatim>\<open>Close\<close> closes \<^verbatim>\<open>notifyConnClose\<close> as well as \<^verbatim>\<open>done\<close>. When
  it runs after \<^verbatim>\<open>connect\<close> has set \<^verbatim>\<open>isReady\<close> and before the supervisor evaluates
  the \<^verbatim>\<open>select\<close> of line 78, both cases of that \<^verbatim>\<open>select\<close> can proceed; if it takes
  the receive from \<^verbatim>\<open>notifyConnClose\<close>, the supervisor opens a second pool after the
  shutdown and sets \<^verbatim>\<open>isReady\<close> again, and a call of \<^verbatim>\<open>GetConnection\<close> that was
  pending at the time of \<^verbatim>\<open>Close\<close> is given a connection.
\<close>

theorem C2_reconnect_after_Close:
  "isReady (exec started [Supervisor True None healthy]) \<and>
   done_ch (exec started [Supervisor True None healthy, CallClose]) = ChClosed \<and>
   next_handle (exec started [Supervisor True None healthy, CallClose]) = 1 \<and>
   closed_pools (exec started [Supervisor True None healthy, CallClose]) = {0} \<and>
   supervisor (exec started [Supervisor True None healthy, CallClose,
      Supervisor False None healthy]) = SupWait \<and>
   next_handle (exec started [Supervisor True None healthy, CallClose,
      Supervisor False None healthy]) = 2 \<and>
   pool (exec started [Supervisor True None healthy, CallClose,
      Supervisor False None healthy]) = Some 1 \<and>
   closed_pools (exec started [Supervisor True None healthy, CallClose,
      Supervisor False None healthy]) = {0} \<and>
   isReady (exec started [Supervisor True None healthy, CallClose,
      Supervisor False None healthy]) \<and>
   panicked (exec started [Supervisor True None healthy, CallClose,
      Supervisor False None healthy]) = None \<and>
   callers (exec started [Supervisor True None healthy, CallGetConnection, CallClose,
      Supervisor False None healthy, Caller 0 True lends]) = [CallReturned (Inr 7)]"
  by (simp add: run_defs)

text \<open>
  C3 fails on the code, by the same defect. After \<^verbatim>\<open>Close\<close> on a ready session, when the
  supervisor has taken the receive from the closed \<^verbatim>\<open>notifyConnClose\<close> and connected
  again, a later call of \<^verbatim>\<open>GetConnection\<close> returns a connection, not
  \<^verbatim>\<open>errShutdown\<close>. When the supervisor takes \<^verbatim>\<open>done\<close> instead, the call returns
  \<^verbatim>\<open>errShutdown\<close> at once, with no time passed.
\<close>

theorem C3_GetConnection_after_Close:
  "callers (exec started [Supervisor True None healthy, CallClose,
      Supervisor False None healthy, CallGetConnection, Caller 0 True lends]) =
     [CallReturned (Inr 7)] \<and>
   done_ch (exec started [Supervisor True None healthy, CallClose,
      Supervisor False None healthy, CallGetConnection, Caller 0 True lends]) = ChClosed \<and>
   callers (exec started [Supervisor True None healthy, CallClose,
      Supervisor True None healthy, CallGetConnection, Caller 0 True lends,
      Caller 0 True lends]) = [CallReturned (Inl errShutdown)] \<and>
   clock (exec started [Supervisor True None healthy, CallClose,
      Supervisor True None healthy, CallGetConnection, Caller 0 True lends,
      Caller 0 True lends]) = 0"
  by (simp add: run_defs)

end
